theory Spec2Isabelle
  imports
    Complex_Main
    "HOL-Library.Char_ord"
    "HOL-Library.List_Lexorder"
    "HOL-Library.Product_Lexorder"
    "HOL-Library.Multiset"
begin

section \<open>Python values, dictionaries and exceptions\<close>

text \<open>
  A source row is the Python \<^verbatim>\<open>dict\<close> decoded from one JSON object of the
  \<^verbatim>\<open>items\<close> array: column name to a JSON scalar. A JSON number that decodes to a Python
  \<^verbatim>\<open>float\<close> is modelled by the real number it denotes; only its comparison with zero
  and with other numbers is ever used. Strings are byte strings (UTF-8).
\<close>

datatype jval = JNull | JBool bool | JInt int | JFloat real | JStr string

datatype pyerror =
    KeyError string
  | TypeError
  | ValueError
  | JSONDecodeError
  | RequestException
  | UnboundLocalError

type_synonym row = "string \<rightharpoonup> jval"

text \<open>Truth value testing: \<^verbatim>\<open>None\<close>, \<^verbatim>\<open>False\<close>, numeric zero and the empty string are false.\<close>

fun truthy :: "jval \<Rightarrow> bool" where
  "truthy JNull = False"
| "truthy (JBool b) = b"
| "truthy (JInt i) = (i \<noteq> 0)"
| "truthy (JFloat x) = (x \<noteq> 0)"
| "truthy (JStr s) = (s \<noteq> [])"

text \<open>\<^verbatim>\<open>d.get(k)\<close>, \<^verbatim>\<open>d.get(k, default)\<close> and \<^verbatim>\<open>d[k]\<close>.\<close>

definition py_get :: "row \<Rightarrow> string \<Rightarrow> jval" where
  "py_get d k = (case d k of None \<Rightarrow> JNull | Some v \<Rightarrow> v)"

definition py_get_default :: "row \<Rightarrow> string \<Rightarrow> jval \<Rightarrow> jval" where
  "py_get_default d k dflt = (case d k of None \<Rightarrow> dflt | Some v \<Rightarrow> v)"

definition py_index :: "row \<Rightarrow> string \<Rightarrow> pyerror + jval" where
  "py_index d k = (case d k of None \<Rightarrow> Inl (KeyError k) | Some v \<Rightarrow> Inr v)"

text \<open>Sequencing of computations that may raise: the first exception wins.\<close>

definition ebind :: "pyerror + 'a \<Rightarrow> ('a \<Rightarrow> pyerror + 'b) \<Rightarrow> pyerror + 'b" where
  "ebind m f = (case m of Inl e \<Rightarrow> Inl e | Inr x \<Rightarrow> f x)"

fun emap :: "('a \<Rightarrow> pyerror + 'b) \<Rightarrow> 'a list \<Rightarrow> pyerror + 'b list" where
  "emap f [] = Inr []"
| "emap f (x # xs) = ebind (f x) (\<lambda>y. ebind (emap f xs) (\<lambda>ys. Inr (y # ys)))"

text \<open>
  The built-in conversions \<^verbatim>\<open>int(x)\<close> and \<^verbatim>\<open>float(x)\<close> are parameters of the model:
  what they do on a string depends on Python's numeral syntax, which no property below
  relies on.
\<close>

record builtins =
  to_int :: "jval \<Rightarrow> pyerror + int"
  to_float :: "jval \<Rightarrow> pyerror + real"

text \<open>
  Ordering of values as \<^verbatim>\<open>>\<close> computes it: numbers (and booleans) numerically,
  strings lexicographically by code unit, anything else raises \<^verbatim>\<open>TypeError\<close>.
\<close>

fun num_of :: "jval \<Rightarrow> real option" where
  "num_of (JBool b) = Some (if b then 1 else 0)"
| "num_of (JInt i) = Some (of_int i)"
| "num_of (JFloat x) = Some x"
| "num_of JNull = None"
| "num_of (JStr s) = None"

fun py_gt :: "jval \<Rightarrow> jval \<Rightarrow> pyerror + bool" where
  "py_gt (JStr s) (JStr t) = Inr (t < s)"
| "py_gt a b =
     (case (num_of a, num_of b) of
        (Some x, Some y) \<Rightarrow> Inr (y < x)
      | _ \<Rightarrow> Inl TypeError)"

text \<open>
  \<^verbatim>\<open>max(t[key] for t in items)\<close>: the generator looks the key up row by row; the running
  maximum is replaced only by a strictly greater value.
\<close>

fun max_from :: "string \<Rightarrow> jval \<Rightarrow> row list \<Rightarrow> pyerror + jval" where
  "max_from key m [] = Inr m"
| "max_from key m (t # ts) =
     ebind (py_index t key) (\<lambda>v.
     ebind (py_gt v m) (\<lambda>b.
     max_from key (if b then v else m) ts))"

definition max_key :: "string \<Rightarrow> row list \<Rightarrow> pyerror + jval" where
  "max_key key items =
     (case items of
        [] \<Rightarrow> Inl ValueError
      | t # ts \<Rightarrow> ebind (py_index t key) (\<lambda>v. max_from key v ts))"

section \<open>Record transforms\<close>

text \<open>
  \<^verbatim>\<open>float(t[k]) if t.get(k) else None\<close> and \<^verbatim>\<open>int(li[k]) if li.get(k) else 0\<close>, the two
  conditional expressions of the transforms.
\<close>

definition float_or_none :: "builtins \<Rightarrow> row \<Rightarrow> string \<Rightarrow> pyerror + jval" where
  "float_or_none py t k =
     (if truthy (py_get t k)
      then ebind (py_index t k) (\<lambda>v. ebind (to_float py v) (\<lambda>x. Inr (JFloat x)))
      else Inr JNull)"

definition int_or_zero :: "builtins \<Rightarrow> row \<Rightarrow> string \<Rightarrow> pyerror + jval" where
  "int_or_zero py li k =
     (if truthy (py_get li k)
      then ebind (py_index li k) (\<lambda>v. ebind (to_int py v) (\<lambda>i. Inr (JInt i)))
      else Inr (JInt 0))"

text \<open>
  The transaction record built in \<^verbatim>\<open>sync_transactions_streaming\<close>
  (sync-netsuite-wholesale-v2.py, lines 178-186), \<^verbatim>\<open>sync_transactions\<close> of
  sync-netsuite-h1-2025.py (lines 171-179) and sync-netsuite-wholesale.py (lines 273-281).
  The entries of the dict display are evaluated in order.
\<close>

definition transform_transaction :: "builtins \<Rightarrow> row \<Rightarrow> pyerror + row" where
  "transform_transaction py t =
     ebind (py_index t ''transaction_id'') (\<lambda>tid.
     ebind (py_index t ''tranid'') (\<lambda>tranid.
     ebind (py_index t ''transaction_type'') (\<lambda>ttype.
     ebind (py_index t ''trandate'') (\<lambda>trandate.
     ebind (float_or_none py t ''transaction_total'') (\<lambda>total.
     ebind (py_index t ''customer_id'') (\<lambda>cid.
     Inr [''ns_transaction_id'' \<mapsto> tid,
          ''tran_id'' \<mapsto> tranid,
          ''transaction_type'' \<mapsto> ttype,
          ''tran_date'' \<mapsto> trandate,
          ''foreign_total'' \<mapsto> total,
          ''status'' \<mapsto> py_get t ''status'',
          ''ns_customer_id'' \<mapsto> cid]))))))"

text \<open>
  The line item record, the same in all three scripts (v2 lines 259-269, h1-2025 lines
  270-280, wholesale lines 340-350).
\<close>

definition transform_line_item :: "builtins \<Rightarrow> row \<Rightarrow> pyerror + row" where
  "transform_line_item py li =
     ebind (py_index li ''line_id'') (\<lambda>line_id.
     ebind (py_index li ''transaction_id'') (\<lambda>tid.
     ebind (int_or_zero py li ''quantity'') (\<lambda>quantity.
     ebind (float_or_none py li ''rate'') (\<lambda>rate.
     ebind (float_or_none py li ''netamount'') (\<lambda>net_amount.
     ebind (float_or_none py li ''foreignamount'') (\<lambda>foreign_amount.
     Inr [''ns_line_id'' \<mapsto> line_id,
          ''ns_transaction_id'' \<mapsto> tid,
          ''ns_item_id'' \<mapsto> py_get li ''item_id'',
          ''sku'' \<mapsto> py_get_default li ''sku'' (JStr ''UNKNOWN''),
          ''quantity'' \<mapsto> quantity,
          ''rate'' \<mapsto> rate,
          ''net_amount'' \<mapsto> net_amount,
          ''foreign_amount'' \<mapsto> foreign_amount,
          ''item_type'' \<mapsto> py_get li ''itemtype'']))))))"


section \<open>Request signing\<close>

text \<open>
  \<^verbatim>\<open>urllib.parse.quote(s, safe)\<close> of the Python standard library (3.7 and later): the
  string is taken byte by byte; the letters, the digits and the four characters
  \<^verbatim>\<open>_.-~\<close> are never quoted, nor are the bytes of \<^verbatim>\<open>safe\<close>; every other byte becomes
  \<^verbatim>\<open>%XX\<close> with upper-case hexadecimal digits.
\<close>

definition always_safe :: string where
  "always_safe = ''ABCDEFGHIJKLMNOPQRSTUVWXYZabcdefghijklmnopqrstuvwxyz0123456789_.-~''"

definition hex_digit :: "nat \<Rightarrow> char" where
  "hex_digit d = ''0123456789ABCDEF'' ! (d mod 16)"

definition quote_byte :: "string \<Rightarrow> char \<Rightarrow> string" where
  "quote_byte safe c =
     (if c \<in> set always_safe \<or> c \<in> set safe then [c]
      else [CHR ''%'', hex_digit (of_char c div 16), hex_digit (of_char c mod 16)])"

definition quote :: "string \<Rightarrow> string \<Rightarrow> string" where
  "quote s safe = concat (map (quote_byte safe) s)"

text \<open>\<^verbatim>\<open>sep.join(parts)\<close>.\<close>

fun str_join :: "string \<Rightarrow> string list \<Rightarrow> string" where
  "str_join sep [] = []"
| "str_join sep [x] = x"
| "str_join sep (x # y # ys) = x @ sep @ str_join sep (y # ys)"

text \<open>
  The credentials are module globals read from the environment; a run whose credentials
  are missing is outside the model.
\<close>

record credentials =
  ns_account_id :: string
  ns_consumer_key :: string
  ns_consumer_secret :: string
  ns_token_id :: string
  ns_token_secret :: string

text \<open>
  The dict \<^verbatim>\<open>oauth_params\<close> in insertion order (make_ns_request, lines 39-46 of
  sync-netsuite-wholesale-v2.py), for a given timestamp and nonce.
\<close>

definition oauth_params :: "credentials \<Rightarrow> string \<Rightarrow> string \<Rightarrow> (string \<times> string) list" where
  "oauth_params cr timestamp nonce =
     [(''oauth_consumer_key'', ns_consumer_key cr),
      (''oauth_token'', ns_token_id cr),
      (''oauth_signature_method'', ''HMAC-SHA256''),
      (''oauth_timestamp'', timestamp),
      (''oauth_nonce'', nonce),
      (''oauth_version'', ''1.0'')]"

text \<open>
  Line 48: the items are sorted as tuples (by name, then by value) and joined as
  \<^verbatim>\<open>name=quote(value, safe='')\<close>.
\<close>

definition params_string :: "(string \<times> string) list \<Rightarrow> string" where
  "params_string ps = str_join ''&'' (map (\<lambda>(k, v). k @ ''='' @ quote v []) (sort ps))"

text \<open>\<^verbatim>\<open>url.split('?')[0]\<close>.\<close>

definition url_base :: "string \<Rightarrow> string" where
  "url_base url = takeWhile (\<lambda>c. c \<noteq> CHR ''?'') url"

definition base_string :: "string \<Rightarrow> string \<Rightarrow> (string \<times> string) list \<Rightarrow> string" where
  "base_string method url ps =
     method @ ''&'' @ quote (url_base url) [] @ ''&'' @ quote (params_string ps) []"

definition signing_key :: "credentials \<Rightarrow> string" where
  "signing_key cr = quote (ns_consumer_secret cr) [] @ ''&'' @ quote (ns_token_secret cr) []"

text \<open>
  Lines 51-56. The keyed hash (HMAC-SHA256, then base64) is a parameter: key, then message.
\<close>

definition auth_header ::
  "(string \<Rightarrow> string \<Rightarrow> string) \<Rightarrow> credentials \<Rightarrow> string \<Rightarrow> string \<Rightarrow> string \<Rightarrow> string \<Rightarrow> string"
where
  "auth_header mac cr method url timestamp nonce =
     (let ps = oauth_params cr timestamp nonce;
          signature = mac (signing_key cr) (base_string method url ps);
          signed = ps @ [(''oauth_signature'', signature)]
      in ''OAuth realm='' @ [CHR 0x22] @ ns_account_id cr @ [CHR 0x22] @ '', '' @
         str_join '', '' (map (\<lambda>(k, v). k @ ''='' @ [CHR 0x22] @ quote v [] @ [CHR 0x22]) signed))"

section \<open>The signed request with its retries\<close>

text \<open>
  A response as the scripts read it: \<^verbatim>\<open>status_code\<close>, \<^verbatim>\<open>text\<close>, and the rows of
  \<^verbatim>\<open>response.json().get('items', [])\<close>; \<open>None\<close> there stands for a body that is not a JSON
  object, on which that expression raises.
\<close>

record response =
  status_code :: int
  body_text :: string
  json_items :: "row list option"

text \<open>What \<^verbatim>\<open>requests.post\<close> or \<^verbatim>\<open>requests.get\<close> does on one attempt.\<close>

datatype outcome = Raises | Responds response

text \<open>
  The world one call of \<^verbatim>\<open>make_ns_request\<close> runs in: the clock and the nonce of each
  attempt, the keyed hash, and the outcome of the attempt for the header it sends.
\<close>

record network =
  clock :: "nat \<Rightarrow> string"
  token_hex :: "nat \<Rightarrow> string"
  hmac_sha256_b64 :: "string \<Rightarrow> string \<Rightarrow> string"
  reply :: "nat \<Rightarrow> string \<Rightarrow> outcome"

datatype ns_event =
    Http_post string
  | Http_get string
  | Print_rate_limited
  | Print_request_error
  | Sleep_s nat

definition http_call :: "string \<Rightarrow> string \<Rightarrow> ns_event" where
  "http_call method hdr = (if method = ''POST'' then Http_post hdr else Http_get hdr)"

text \<open>
  The header of one attempt, signed with the timestamp and the nonce of that attempt
  (lines 39-56).
\<close>

definition signed_header :: "credentials \<Rightarrow> network \<Rightarrow> string \<Rightarrow> string \<Rightarrow> nat \<Rightarrow> string" where
  "signed_header cr net url method attempt =
     auth_header (hmac_sha256_b64 net) cr method url (clock net attempt) (token_hex net attempt)"

text \<open>
  The body of \<^verbatim>\<open>for attempt in range(retries)\<close> (lines 38-78), over the attempts still to
  run: the result of the call and what it did, in order. The wait follows the response
  (or the exception) of every retried attempt, the last one included; \<^verbatim>\<open>None\<close> is returned
  when no attempt is left.
\<close>

fun attempts ::
  "credentials \<Rightarrow> network \<Rightarrow> string \<Rightarrow> string \<Rightarrow> nat list \<Rightarrow> response option \<times> ns_event list"
where
  "attempts cr net url method [] = (None, [])"
| "attempts cr net url method (attempt # rest) =
     (let hdr = signed_header cr net url method attempt
      in case reply net attempt hdr of
           Raises \<Rightarrow>
             (let (r, evs) = attempts cr net url method rest
              in (r, http_call method hdr # Print_request_error # Sleep_s 5 # evs))
         | Responds resp \<Rightarrow>
             if status_code resp = 429
             then (let (r, evs) = attempts cr net url method rest
                   in (r, http_call method hdr # Print_rate_limited # Sleep_s 30 # evs))
             else (Some resp, [http_call method hdr]))"

definition make_ns_request ::
  "credentials \<Rightarrow> network \<Rightarrow> string \<Rightarrow> string \<Rightarrow> nat \<Rightarrow> response option \<times> ns_event list"
where
  "make_ns_request cr net url method retries = attempts cr net url method [0..<retries]"

text \<open>
  For stating what a call did: whether the outcome of an attempt is one the loop retries,
  and the events of an attempt that is retried.
\<close>

fun retried :: "outcome \<Rightarrow> bool" where
  "retried Raises = True"
| "retried (Responds resp) = (status_code resp = 429)"

definition retry_events :: "credentials \<Rightarrow> network \<Rightarrow> string \<Rightarrow> string \<Rightarrow> nat \<Rightarrow> ns_event list" where
  "retry_events cr net url method attempt =
     (let hdr = signed_header cr net url method attempt
      in case reply net attempt hdr of
           Raises \<Rightarrow> [http_call method hdr, Print_request_error, Sleep_s 5]
         | Responds resp \<Rightarrow> [http_call method hdr, Print_rate_limited, Sleep_s 30])"

fun is_http :: "ns_event \<Rightarrow> bool" where
  "is_http (Http_post h) = True"
| "is_http (Http_get h) = True"
| "is_http e = False"

section \<open>The destination write\<close>

text \<open>One HTTP call to the destination store, as \<^verbatim>\<open>supabase_request\<close> issues it.\<close>

record sb_call =
  sb_method :: string
  sb_url :: string
  sb_prefer :: string
  sb_data :: "row list option"

text \<open>
  \<^verbatim>\<open>supabase_request(endpoint, method, data)\<close> of sync-netsuite-wholesale-v2.py (lines
  80-98) and sync-netsuite-wholesale.py. The HTTP library may raise; a method other than
  the three leaves \<^verbatim>\<open>response\<close> unbound.
\<close>

definition supabase_request ::
  "(sb_call \<Rightarrow> pyerror + response) \<Rightarrow> string \<Rightarrow> string \<Rightarrow> string \<Rightarrow> row list option \<Rightarrow> pyerror + response"
where
  "supabase_request http supabase_url endpoint method data =
     (let url = supabase_url @ ''/rest/v1/'' @ endpoint
      in if method = ''GET''
         then http \<lparr>sb_method = ''GET'', sb_url = url, sb_prefer = ''return=minimal'', sb_data = None\<rparr>
         else if method = ''POST''
         then http \<lparr>sb_method = ''POST'', sb_url = url,
                     sb_prefer = ''resolution=merge-duplicates,return=minimal'', sb_data = data\<rparr>
         else if method = ''DELETE''
         then http \<lparr>sb_method = ''DELETE'', sb_url = url, sb_prefer = ''return=minimal'', sb_data = None\<rparr>
         else Inl UnboundLocalError)"

text \<open>
  The variant of sync-netsuite-h1-2025.py (lines 83-105) with \<^verbatim>\<open>on_conflict\<close>; an empty
  string is false as \<^verbatim>\<open>None\<close> is.
\<close>

definition supabase_request_on_conflict ::
  "(sb_call \<Rightarrow> pyerror + response) \<Rightarrow> string \<Rightarrow> string \<Rightarrow> string \<Rightarrow> row list option \<Rightarrow> string option
   \<Rightarrow> pyerror + response"
where
  "supabase_request_on_conflict http supabase_url endpoint method data on_conflict =
     (let url = supabase_url @ ''/rest/v1/'' @ endpoint
      in if method = ''GET''
         then http \<lparr>sb_method = ''GET'', sb_url = url, sb_prefer = ''return=minimal'', sb_data = None\<rparr>
         else if method = ''POST''
         then (case on_conflict of
                 Some (c # cs) \<Rightarrow>
                   http \<lparr>sb_method = ''POST'', sb_url = url @ ''?on_conflict='' @ (c # cs),
                         sb_prefer = ''resolution=merge-duplicates,return=minimal'', sb_data = data\<rparr>
               | _ \<Rightarrow>
                   http \<lparr>sb_method = ''POST'', sb_url = url,
                         sb_prefer = ''resolution=merge-duplicates,return=minimal'', sb_data = data\<rparr>)
         else if method = ''DELETE''
         then http \<lparr>sb_method = ''DELETE'', sb_url = url, sb_prefer = ''return=minimal'', sb_data = None\<rparr>
         else Inl UnboundLocalError)"


section \<open>Diagnostics\<close>

text \<open>\<^verbatim>\<open>min(values)\<close> and \<^verbatim>\<open>max(values)\<close> over a list; both raise on an empty list.\<close>

fun min_from :: "jval \<Rightarrow> jval list \<Rightarrow> pyerror + jval" where
  "min_from m [] = Inr m"
| "min_from m (v # vs) = ebind (py_gt m v) (\<lambda>b. min_from (if b then v else m) vs)"

fun max_vals_from :: "jval \<Rightarrow> jval list \<Rightarrow> pyerror + jval" where
  "max_vals_from m [] = Inr m"
| "max_vals_from m (v # vs) = ebind (py_gt v m) (\<lambda>b. max_vals_from (if b then v else m) vs)"

definition py_min :: "jval list \<Rightarrow> pyerror + jval" where
  "py_min vs = (case vs of [] \<Rightarrow> Inl ValueError | v # rest \<Rightarrow> min_from v rest)"

definition py_max :: "jval list \<Rightarrow> pyerror + jval" where
  "py_max vs = (case vs of [] \<Rightarrow> Inl ValueError | v # rest \<Rightarrow> max_vals_from v rest)"

text \<open>
  A \<^verbatim>\<open>requests.Response\<close> is true when its status is not an error status
  (\<^verbatim>\<open>if response:\<close> guards the detail lines of the fetch diagnostics).
\<close>

definition response_truthy :: "response \<Rightarrow> bool" where
  "response_truthy r = (\<not> (400 \<le> status_code r \<and> status_code r < 600))"

definition error_details :: "response option \<Rightarrow> response option" where
  "error_details response =
     (case response of
        None \<Rightarrow> None
      | Some r \<Rightarrow> if response_truthy r then Some r else None)"

text \<open>What a phase prints, with the values it formats; \<open>'c\<close> is the cursor.\<close>

datatype 'c msg =
    Fetch_error 'c "response option"
  | No_more 'c
  | Fetched nat
  | Batch_error nat string
  | Batch_ok nat nat nat "jval list"
  | Last_batch nat

text \<open>
  What a phase does, in order: the signed query for the page at a cursor with a page
  size, together with what \<^verbatim>\<open>make_ns_request\<close> returned; the write of one batch to a
  table; a printed line; the pause between pages. From such a sequence: the cursors of
  the queries, the rows of the pages the phase read (those of the responses with status
  200), and the batches written.
\<close>

datatype 'c event =
    Request 'c nat "response option"
  | Upsert string "row list"
  | Print "'c msg"
  | Sleep_ms nat

fun request_cursors :: "'c event list \<Rightarrow> 'c list" where
  "request_cursors [] = []"
| "request_cursors (Request c n r # es) = c # request_cursors es"
| "request_cursors (e # es) = request_cursors es"

fun received :: "'c event list \<Rightarrow> row list" where
  "received [] = []"
| "received (Request c n (Some r) # es) =
     (if status_code r = 200 then (case json_items r of Some items \<Rightarrow> items | None \<Rightarrow> []) else [])
     @ received es"
| "received (e # es) = received es"

fun upserts :: "'c event list \<Rightarrow> row list list" where
  "upserts [] = []"
| "upserts (Upsert t records # es) = records # upserts es"
| "upserts (e # es) = upserts es"

text \<open>\<^verbatim>\<open>dates = [r['tran_date'] for r in records if r['tran_date']]\<close> and its range.\<close>

definition date_range :: "row list \<Rightarrow> pyerror + jval list" where
  "date_range records =
     (let dates = filter truthy (map (\<lambda>r. py_get r ''tran_date'') records)
      in if dates = [] then Inr []
         else ebind (py_min dates) (\<lambda>lo. ebind (py_max dates) (\<lambda>hi. Inr [lo, hi])))"

definition id_range :: "string \<Rightarrow> row list \<Rightarrow> pyerror + jval list" where
  "id_range k records =
     (let ids = map (\<lambda>r. py_get r k) records
      in ebind (py_min ids) (\<lambda>lo. ebind (py_max ids) (\<lambda>hi. Inr [lo, hi])))"

text \<open>The success lines: h1-2025 lines 186-190 and 287-289, v2 lines 193-197 and 276-277.\<close>

definition report_transactions_h1 :: "nat \<Rightarrow> row list \<Rightarrow> nat \<Rightarrow> pyerror + 'c msg" where
  "report_transactions_h1 n records tot =
     ebind (date_range records) (\<lambda>dr.
     ebind (id_range ''ns_transaction_id'' records) (\<lambda>ir.
     Inr (Batch_ok n (length records) tot (ir @ dr))))"

definition report_line_items_h1 :: "nat \<Rightarrow> row list \<Rightarrow> nat \<Rightarrow> pyerror + 'c msg" where
  "report_line_items_h1 n records tot =
     ebind (id_range ''ns_line_id'' records) (\<lambda>ir.
     Inr (Batch_ok n (length records) tot ir))"

definition report_transactions_v2 :: "nat \<Rightarrow> row list \<Rightarrow> nat \<Rightarrow> pyerror + 'c msg" where
  "report_transactions_v2 n records tot =
     ebind (date_range records) (\<lambda>dr. Inr (Batch_ok n (length records) tot dr))"

definition report_line_items_v2 :: "nat \<Rightarrow> row list \<Rightarrow> nat \<Rightarrow> pyerror + 'c msg" where
  "report_line_items_v2 n records tot = Inr (Batch_ok n (length records) tot [])"

section \<open>The phases\<close>

text \<open>
  What distinguishes one phase from another: the query (here: what the signed request
  returns in iteration \<open>n\<close> for a cursor and a page size), the destination write, the
  transform and the success line. The page size is the local \<^verbatim>\<open>limit = 1000\<close> of the
  scripts, kept as a parameter.
\<close>

record 'c phase =
  fetch :: "nat \<Rightarrow> 'c \<Rightarrow> nat \<Rightarrow> response option"
  post :: "nat \<Rightarrow> row list \<Rightarrow> pyerror + response"
  table :: string
  transform :: "row \<Rightarrow> pyerror + row"
  report :: "nat \<Rightarrow> row list \<Rightarrow> nat \<Rightarrow> pyerror + 'c msg"
  limit :: nat

record 'c phase_state =
  cursor :: 'c
  batch_num :: nat
  total :: nat
  trace :: "'c event list"

datatype flow = Break | Continue

text \<open>
  \<^verbatim>\<open>while True:\<close> with a body that breaks, continues or raises. The loop has no bound
  of its own, so the model counts iterations down: \<open>None\<close> when they run out.
\<close>

fun while_true :: "nat \<Rightarrow> ('s \<Rightarrow> pyerror + flow \<times> 's) \<Rightarrow> 's \<Rightarrow> (pyerror + 's) option" where
  "while_true 0 body st = None"
| "while_true (Suc fuel) body st =
     (case body st of
        Inl e \<Rightarrow> Some (Inl e)
      | Inr (Break, st') \<Rightarrow> Some (Inr st')
      | Inr (Continue, st') \<Rightarrow> while_true fuel body st')"

text \<open>
  The write of one batch and its bookkeeping (h1-2025 lines 181-190; v2 lines 188-197):
  the new running total and the events.
\<close>

definition write_batch :: "'c phase \<Rightarrow> nat \<Rightarrow> nat \<Rightarrow> row list \<Rightarrow> pyerror + nat \<times> 'c event list" where
  "write_batch ph n tot records =
     ebind (post ph n records) (\<lambda>sb_response.
       if status_code sb_response \<notin> {200, 201, 204}
       then Inr (tot, [Upsert (table ph) records,
                       Print (Batch_error n (take 100 (body_text sb_response)))])
       else ebind (report ph n records (tot + length records)) (\<lambda>m.
            Inr (tot + length records, [Upsert (table ph) records, Print m])))"

text \<open>
  One iteration of the watermark loops of sync-netsuite-h1-2025.py
  (\<^verbatim>\<open>sync_transactions\<close>, lines 121-196; \<^verbatim>\<open>sync_line_items\<close>, lines 215-295); \<open>key\<close> is
  the column the cursor is taken from.
\<close>

definition watermark_iteration ::
  "string \<Rightarrow> jval phase \<Rightarrow> jval phase_state \<Rightarrow> pyerror + flow \<times> jval phase_state"
where
  "watermark_iteration key ph st =
     (let n = batch_num st + 1;
          response = fetch ph n (cursor st) (limit ph);
          tr = trace st @ [Request (cursor st) (limit ph) response];
          failed = Inr (Break, st\<lparr>batch_num := n,
                     trace := tr @ [Print (Fetch_error (cursor st) (error_details response))]\<rparr>)
      in case response of
           None \<Rightarrow> failed
         | Some resp \<Rightarrow>
             if status_code resp \<noteq> 200 then failed
             else (case json_items resp of
                     None \<Rightarrow> Inl JSONDecodeError
                   | Some items \<Rightarrow>
                       if items = []
                       then Inr (Break, st\<lparr>batch_num := n,
                                  trace := tr @ [Print (No_more (cursor st))]\<rparr>)
                       else ebind (max_key key items) (\<lambda>last_id.
                            ebind (emap (transform ph) items) (\<lambda>records.
                            ebind (write_batch ph n (total st) records) (\<lambda>(tot, evs).
                              if length items < limit ph
                              then Inr (Break, \<lparr>cursor = last_id, batch_num = n, total = tot,
                                     trace = tr @ evs @ [Print (Last_batch (length items))]\<rparr>)
                              else Inr (Continue, \<lparr>cursor = last_id, batch_num = n, total = tot,
                                     trace = tr @ evs @ [Sleep_ms 300]\<rparr>))))))"

text \<open>
  One iteration of the offset loops of sync-netsuite-wholesale-v2.py
  (\<^verbatim>\<open>sync_transactions_streaming\<close>, lines 139-203 and 215-283).
\<close>

definition offset_iteration :: "nat phase \<Rightarrow> nat phase_state \<Rightarrow> pyerror + flow \<times> nat phase_state" where
  "offset_iteration ph st =
     (let n = batch_num st + 1;
          response = fetch ph n (cursor st) (limit ph);
          tr = trace st @ [Request (cursor st) (limit ph) response];
          failed = Inr (Break, st\<lparr>batch_num := n,
                     trace := tr @ [Print (Fetch_error (cursor st) (error_details response))]\<rparr>)
      in case response of
           None \<Rightarrow> failed
         | Some resp \<Rightarrow>
             if status_code resp \<noteq> 200 then failed
             else (case json_items resp of
                     None \<Rightarrow> Inl JSONDecodeError
                   | Some items \<Rightarrow>
                       if items = []
                       then Inr (Break, st\<lparr>batch_num := n, trace := tr\<rparr>)
                       else ebind (emap (transform ph) items) (\<lambda>records.
                            ebind (write_batch ph n (total st) records) (\<lambda>(tot, evs).
                              if length items < limit ph
                              then Inr (Break, st\<lparr>batch_num := n, total := tot, trace := tr @ evs\<rparr>)
                              else Inr (Continue, \<lparr>cursor = cursor st + limit ph, batch_num = n,
                                     total = tot, trace = tr @ evs @ [Sleep_ms 300]\<rparr>)))))"

text \<open>
  The fetch loop of \<^verbatim>\<open>sync_customers\<close> (sync-netsuite-wholesale.py, lines 115-166), which
  only collects the pages. The loop has no counter of its own; \<open>calls\<close> numbers the
  requests for the source.
\<close>

record customers_state =
  offset :: nat
  all_customers :: "row list"
  calls :: nat
  printed :: "nat event list"

definition customers_iteration ::
  "(nat \<Rightarrow> nat \<Rightarrow> nat \<Rightarrow> response option) \<Rightarrow> nat \<Rightarrow> customers_state \<Rightarrow> pyerror + flow \<times> customers_state"
where
  "customers_iteration ns_customers psize st =
     (let n = calls st + 1;
          response = ns_customers n (offset st) psize;
          tr = printed st @ [Request (offset st) psize response];
          failed = Inr (Break, st\<lparr>calls := n,
                     printed := tr @ [Print (Fetch_error (offset st) None)]\<rparr>)
      in case response of
           None \<Rightarrow> failed
         | Some resp \<Rightarrow>
             if status_code resp \<noteq> 200 then failed
             else (case json_items resp of
                     None \<Rightarrow> Inl JSONDecodeError
                   | Some items \<Rightarrow>
                       if items = []
                       then Inr (Break, st\<lparr>calls := n, printed := tr\<rparr>)
                       else (let collected = all_customers st @ items;
                                 tr' = tr @ [Print (Fetched (length collected))]
                             in if length items < psize
                                then Inr (Break, st\<lparr>all_customers := collected, calls := n,
                                       printed := tr'\<rparr>)
                                else Inr (Continue, \<lparr>offset = offset st + psize,
                                       all_customers = collected, calls = n,
                                       printed = tr' @ [Sleep_ms 300]\<rparr>))))"

definition sync_customers_fetch ::
  "(nat \<Rightarrow> nat \<Rightarrow> nat \<Rightarrow> response option) \<Rightarrow> nat \<Rightarrow> nat \<Rightarrow> (pyerror + customers_state) option"
where
  "sync_customers_fetch ns_customers psize fuel =
     while_true fuel (customers_iteration ns_customers psize)
       \<lparr>offset = 0, all_customers = [], calls = 0, printed = []\<rparr>"

section \<open>The scripts' phases\<close>

text \<open>
  The world a script runs in: the conversions, the destination's address, what the signed
  request returns for the transaction query and for the line item query, and what the
  destination answers in iteration \<open>n\<close>.
\<close>

record 'c world =
  py :: builtins
  supabase_url :: string
  ns_transactions :: "nat \<Rightarrow> 'c \<Rightarrow> nat \<Rightarrow> response option"
  ns_line_items :: "nat \<Rightarrow> 'c \<Rightarrow> nat \<Rightarrow> response option"
  sb_http :: "nat \<Rightarrow> sb_call \<Rightarrow> pyerror + response"

definition start :: "'c \<Rightarrow> 'c phase_state" where
  "start c = \<lparr>cursor = c, batch_num = 0, total = 0, trace = []\<rparr>"

text \<open>sync-netsuite-h1-2025.py: \<^verbatim>\<open>sync_transactions\<close> and \<^verbatim>\<open>sync_line_items\<close>.\<close>

definition transactions_h1 :: "jval world \<Rightarrow> nat \<Rightarrow> jval phase" where
  "transactions_h1 w psize =
     \<lparr>fetch = ns_transactions w,
      post = (\<lambda>n records. supabase_request_on_conflict (sb_http w n) (supabase_url w)
                ''ns_wholesale_transactions'' ''POST'' (Some records) (Some ''ns_transaction_id'')),
      table = ''ns_wholesale_transactions'',
      transform = transform_transaction (py w),
      report = report_transactions_h1,
      limit = psize\<rparr>"

definition line_items_h1 :: "jval world \<Rightarrow> nat \<Rightarrow> jval phase" where
  "line_items_h1 w psize =
     \<lparr>fetch = ns_line_items w,
      post = (\<lambda>n records. supabase_request_on_conflict (sb_http w n) (supabase_url w)
                ''ns_wholesale_line_items'' ''POST'' (Some records)
                (Some ''ns_transaction_id,ns_line_id'')),
      table = ''ns_wholesale_line_items'',
      transform = transform_line_item (py w),
      report = report_line_items_h1,
      limit = psize\<rparr>"

definition sync_transactions :: "jval world \<Rightarrow> nat \<Rightarrow> nat \<Rightarrow> (pyerror + jval phase_state) option" where
  "sync_transactions w psize fuel =
     while_true fuel (watermark_iteration ''transaction_id'' (transactions_h1 w psize)) (start (JInt 0))"

definition sync_line_items :: "jval world \<Rightarrow> nat \<Rightarrow> nat \<Rightarrow> (pyerror + jval phase_state) option" where
  "sync_line_items w psize fuel =
     while_true fuel (watermark_iteration ''line_id'' (line_items_h1 w psize)) (start (JInt 0))"

text \<open>
  sync-netsuite-wholesale-v2.py: the two loops of \<^verbatim>\<open>sync_transactions_streaming\<close> (from
  line 128 on, with a non-empty customer list), one after the other.
\<close>

definition transactions_v2 :: "nat world \<Rightarrow> nat \<Rightarrow> nat phase" where
  "transactions_v2 w psize =
     \<lparr>fetch = ns_transactions w,
      post = (\<lambda>n records. supabase_request (sb_http w n) (supabase_url w)
                ''ns_wholesale_transactions'' ''POST'' (Some records)),
      table = ''ns_wholesale_transactions'',
      transform = transform_transaction (py w),
      report = report_transactions_v2,
      limit = psize\<rparr>"

definition line_items_v2 :: "nat world \<Rightarrow> nat \<Rightarrow> nat phase" where
  "line_items_v2 w psize =
     \<lparr>fetch = ns_line_items w,
      post = (\<lambda>n records. supabase_request (sb_http w n) (supabase_url w)
                ''ns_wholesale_line_items'' ''POST'' (Some records)),
      table = ''ns_wholesale_line_items'',
      transform = transform_line_item (py w),
      report = report_line_items_v2,
      limit = psize\<rparr>"

definition sync_transactions_streaming ::
  "nat world \<Rightarrow> nat \<Rightarrow> nat \<Rightarrow> (pyerror + nat phase_state \<times> nat phase_state) option"
where
  "sync_transactions_streaming w psize fuel =
     (case while_true fuel (offset_iteration (transactions_v2 w psize)) (start 0) of
        None \<Rightarrow> None
      | Some (Inl e) \<Rightarrow> Some (Inl e)
      | Some (Inr txns) \<Rightarrow>
          (case while_true fuel (offset_iteration (line_items_v2 w psize)) (start 0) of
             None \<Rightarrow> None
           | Some (Inl e) \<Rightarrow> Some (Inl e)
           | Some (Inr lines) \<Rightarrow> Some (Inr (txns, lines))))"

section \<open>A source that answers the watermark query\<close>

text \<open>
  The meaning of \<^verbatim>\<open>WHERE ... AND id > last_id ORDER BY id FETCH NEXT limit ROWS ONLY\<close> over
  a table whose rows all satisfy the other predicates of the query and carry an integer
  id in column \<open>key\<close>.
\<close>

definition int_id :: "string \<Rightarrow> row \<Rightarrow> int" where
  "int_id key r = (case r key of Some (JInt i) \<Rightarrow> i | _ \<Rightarrow> 0)"

definition run_query :: "string \<Rightarrow> row list \<Rightarrow> int \<Rightarrow> nat \<Rightarrow> row list" where
  "run_query key tbl last_id psize =
     take psize (sort_key (int_id key) (filter (\<lambda>r. last_id < int_id key r) tbl))"

definition answers :: "(nat \<Rightarrow> jval \<Rightarrow> nat \<Rightarrow> response option) \<Rightarrow> string \<Rightarrow> row list \<Rightarrow> nat \<Rightarrow> bool" where
  "answers src key tbl psize =
     (\<forall>n c. \<exists>resp. src n (JInt c) psize = Some resp \<and> status_code resp = 200 \<and>
                   json_items resp = Some (run_query key tbl c psize))"


text \<open>
  The weaker assumption on a source: whatever it returns for the query at a cursor, every
  row carries an integer id that satisfies the predicate \<^verbatim>\<open>id > last_id\<close> of that query.
\<close>

definition respects_cursor :: "(nat \<Rightarrow> jval \<Rightarrow> nat \<Rightarrow> response option) \<Rightarrow> string \<Rightarrow> nat \<Rightarrow> bool" where
  "respects_cursor src key psize =
     (\<forall>n c resp items.
        src n (JInt c) psize = Some resp \<and> json_items resp = Some items \<longrightarrow>
        (\<forall>r \<in> set items. \<exists>i. r key = Some (JInt i) \<and> c < i))"

text \<open>
  Rows on which a phase runs to its end: the id is a positive integer, the columns the
  transform indexes are there, the date is a string, and the conversions accept the
  numeric columns that are set. The destination answers every call (with any status).
\<close>

fun is_pos_int :: "jval option \<Rightarrow> bool" where
  "is_pos_int (Some (JInt i)) = (0 < i)"
| "is_pos_int v = False"

fun is_str :: "jval option \<Rightarrow> bool" where
  "is_str (Some (JStr s)) = True"
| "is_str v = False"

definition converts :: "(jval \<Rightarrow> pyerror + 'a) \<Rightarrow> row \<Rightarrow> string \<Rightarrow> bool" where
  "converts conv t k = (\<not> truthy (py_get t k) \<or> \<not> isl (conv (py_get t k)))"

definition good_transaction :: "builtins \<Rightarrow> row \<Rightarrow> bool" where
  "good_transaction b t =
     (is_pos_int (t ''transaction_id'') \<and> t ''tranid'' \<noteq> None \<and> t ''transaction_type'' \<noteq> None \<and>
      is_str (t ''trandate'') \<and> t ''customer_id'' \<noteq> None \<and>
      converts (to_float b) t ''transaction_total'')"

definition good_line_item :: "builtins \<Rightarrow> row \<Rightarrow> bool" where
  "good_line_item b li =
     (is_pos_int (li ''line_id'') \<and> li ''transaction_id'' \<noteq> None \<and>
      converts (to_int b) li ''quantity'' \<and> converts (to_float b) li ''rate'' \<and>
      converts (to_float b) li ''netamount'' \<and> converts (to_float b) li ''foreignamount'')"

definition writes_return :: "'c world \<Rightarrow> bool" where
  "writes_return w = (\<forall>n call. \<not> isl (sb_http w n call))"

text \<open>What a finished phase is asked about: the number of signed queries it issued.\<close>

definition fetch_count :: "(pyerror + 'c phase_state) option \<Rightarrow> nat option" where
  "fetch_count r =
     (case r of Some (Inr st) \<Rightarrow> Some (length (request_cursors (trace st))) | _ \<Rightarrow> None)"

section \<open>Worlds for the examples\<close>

definition accepting :: "nat \<Rightarrow> sb_call \<Rightarrow> pyerror + response" where
  "accepting n call = Inr \<lparr>status_code = 201, body_text = [], json_items = None\<rparr>"

definition rejecting :: "nat \<Rightarrow> sb_call \<Rightarrow> pyerror + response" where
  "rejecting n call = Inr \<lparr>status_code = 500, body_text = ''no'', json_items = None\<rparr>"

definition no_conversion :: builtins where
  "no_conversion = \<lparr>to_int = (\<lambda>v. Inl ValueError), to_float = (\<lambda>v. Inl ValueError)\<rparr>"

definition table_source :: "string \<Rightarrow> row list \<Rightarrow> nat \<Rightarrow> jval \<Rightarrow> nat \<Rightarrow> response option" where
  "table_source key tbl n c psize =
     (case c of
        JInt i \<Rightarrow> Some \<lparr>status_code = 200, body_text = [], json_items = Some (run_query key tbl i psize)\<rparr>
      | _ \<Rightarrow> None)"

definition txn :: "int \<Rightarrow> row" where
  "txn i = [''transaction_id'' \<mapsto> JInt i, ''tranid'' \<mapsto> JStr ''INV'',
            ''transaction_type'' \<mapsto> JStr ''CustInvc'', ''trandate'' \<mapsto> JStr ''1/2/2025'',
            ''customer_id'' \<mapsto> JInt 7]"

definition line :: "int \<Rightarrow> row" where
  "line i = [''line_id'' \<mapsto> JInt i, ''transaction_id'' \<mapsto> JInt 1, ''item_id'' \<mapsto> JInt 3]"

definition txn_record :: "int \<Rightarrow> row" where
  "txn_record i =
     [''ns_transaction_id'' \<mapsto> JInt i, ''tran_id'' \<mapsto> JStr ''INV'',
      ''transaction_type'' \<mapsto> JStr ''CustInvc'', ''tran_date'' \<mapsto> JStr ''1/2/2025'',
      ''foreign_total'' \<mapsto> JNull, ''status'' \<mapsto> JNull, ''ns_customer_id'' \<mapsto> JInt 7]"

definition line_record :: "int \<Rightarrow> row" where
  "line_record i =
     [''ns_line_id'' \<mapsto> JInt i, ''ns_transaction_id'' \<mapsto> JInt 1, ''ns_item_id'' \<mapsto> JInt 3,
      ''sku'' \<mapsto> JStr ''UNKNOWN'', ''quantity'' \<mapsto> JInt 0, ''rate'' \<mapsto> JNull,
      ''net_amount'' \<mapsto> JNull, ''foreign_amount'' \<mapsto> JNull, ''item_type'' \<mapsto> JNull]"

definition h1_world :: "row list \<Rightarrow> row list \<Rightarrow> jval world" where
  "h1_world txns lines =
     \<lparr>py = no_conversion, supabase_url = ''https://sb'',
      ns_transactions = table_source ''transaction_id'' txns,
      ns_line_items = table_source ''line_id'' lines,
      sb_http = accepting\<rparr>"


definition offset_source :: "row list \<Rightarrow> nat \<Rightarrow> nat \<Rightarrow> nat \<Rightarrow> response option" where
  "offset_source tbl n off psize =
     Some \<lparr>status_code = 200, body_text = [], json_items = Some (take psize (drop off tbl))\<rparr>"

definition malformed :: "nat \<Rightarrow> nat \<Rightarrow> nat \<Rightarrow> response option" where
  "malformed n off psize = Some \<lparr>status_code = 200, body_text = ''<html>'', json_items = None\<rparr>"

definition unavailable :: "nat \<Rightarrow> nat \<Rightarrow> nat \<Rightarrow> response option" where
  "unavailable n off psize = Some \<lparr>status_code = 503, body_text = ''busy'', json_items = None\<rparr>"

definition refusing :: "nat \<Rightarrow> sb_call \<Rightarrow> pyerror + response" where
  "refusing n call = Inl RequestException"

definition v2_world ::
  "(nat \<Rightarrow> nat \<Rightarrow> nat \<Rightarrow> response option) \<Rightarrow> (nat \<Rightarrow> nat \<Rightarrow> nat \<Rightarrow> response option) \<Rightarrow>
   (nat \<Rightarrow> sb_call \<Rightarrow> pyerror + response) \<Rightarrow> nat world"
where
  "v2_world txns lines sink =
     \<lparr>py = no_conversion, supabase_url = ''https://sb'',
      ns_transactions = txns, ns_line_items = lines, sb_http = sink\<rparr>"

definition demo_credentials :: credentials where
  "demo_credentials =
     \<lparr>ns_account_id = ''1'', ns_consumer_key = ''ck'', ns_consumer_secret = ''cs'',
      ns_token_id = ''tk'', ns_token_secret = ''ts''\<rparr>"

definition replying :: "int \<Rightarrow> network" where
  "replying status =
     \<lparr>clock = (\<lambda>attempt. ''1700000000''), token_hex = (\<lambda>attempt. ''00''),
      hmac_sha256_b64 = (\<lambda>k m. ''sig''),
      reply = (\<lambda>attempt hdr. Responds \<lparr>status_code = status, body_text = [], json_items = None\<rparr>)\<rparr>"


definition limited_then :: "nat \<Rightarrow> int \<Rightarrow> network" where
  "limited_then k status =
     \<lparr>clock = (\<lambda>attempt. ''1700000000''), token_hex = (\<lambda>attempt. ''00''),
      hmac_sha256_b64 = (\<lambda>k m. ''sig''),
      reply = (\<lambda>attempt hdr. Responds \<lparr>status_code = (if attempt < k then 429 else status),
                                          body_text = [], json_items = None\<rparr>)\<rparr>"

section \<open>Basic facts\<close>

lemma ebind_Inr [simp]: "ebind (Inr x) f = f x" by (simp add: ebind_def)
lemma ebind_Inl [simp]: "ebind (Inl e) f = Inl e" by (simp add: ebind_def)
lemma ebind_Inr_iff: "ebind m f = Inr r \<longleftrightarrow> (\<exists>x. m = Inr x \<and> f x = Inr r)"
  by (cases m) simp_all

lemma request_cursors_append [simp]:
  "request_cursors (a @ b) = request_cursors a @ request_cursors b"
  by (induction a rule: request_cursors.induct) simp_all

lemma received_append [simp]: "received (a @ b) = received a @ received b"
  by (induction a rule: received.induct) simp_all

lemma upserts_append [simp]: "upserts (a @ b) = upserts a @ upserts b"
  by (induction a rule: upserts.induct) simp_all

lemma emap_total:
  assumes "\<forall>x \<in> set xs. \<exists>y. f x = Inr y"
  shows "\<exists>ys. emap f xs = Inr ys \<and> length ys = length xs"
  using assms by (induction xs) auto

lemma emap_Inr_length: "emap f xs = Inr ys \<Longrightarrow> length ys = length xs"
  by (induction xs arbitrary: ys) (auto simp: ebind_Inr_iff)

lemma max_from_int:
  assumes "\<forall>t \<in> set ts. \<exists>i. t key = Some (JInt i)"
  shows "max_from key (JInt m) ts = Inr (JInt (fold max (map (int_id key) ts) m))"
  using assms
proof (induction ts arbitrary: m)
  case Nil then show ?case by simp
next
  case (Cons t ts)
  then obtain i where i: "t key = Some (JInt i)" by auto
  have idt: "int_id key t = i" by (simp add: int_id_def i)
  have step: "max_from key (JInt m) (t # ts) = max_from key (JInt (max i m)) ts"
    using i by (auto simp: py_index_def max_def)
  show ?case unfolding step using Cons by (simp add: idt)
qed

lemma max_key_int:
  assumes "items \<noteq> []" "\<forall>t \<in> set items. \<exists>i. t key = Some (JInt i)"
  shows "max_key key items = Inr (JInt (Max (int_id key ` set items)))"
proof -
  obtain t ts where its: "items = t # ts" using assms(1) by (cases items) auto
  obtain i where i: "t key = Some (JInt i)" using assms(2) its by auto
  have "max_key key items = Inr (JInt (fold max (map (int_id key) ts) (int_id key t)))"
    using its i assms(2) by (simp add: max_key_def py_index_def max_from_int int_id_def)
  also have "fold max (map (int_id key) ts) (int_id key t) = Max (set (map (int_id key) items))"
    unfolding its list.map by (rule Max.set_eq_fold [symmetric])
  finally show ?thesis by simp
qed

lemma filter_above_take:
  fixes f :: "'a \<Rightarrow> int"
  assumes "sorted_wrt (\<lambda>a b. f a < f b) xs" "0 < p" "p \<le> length xs"
  shows "filter (\<lambda>r. Max (f ` set (take p xs)) < f r) xs = drop p xs"
proof -
  let ?M = "Max (f ` set (take p xs))"
  have ne: "take p xs \<noteq> []" using assms by auto
  have split: "sorted_wrt (\<lambda>a b. f a < f b) (take p xs @ drop p xs)" using assms(1) by simp
  have Min: "?M \<in> f ` set (take p xs)" using ne by (intro Max_in) auto
  have lo: "\<forall>a \<in> set (take p xs). \<not> ?M < f a"
    by (auto simp: not_less intro!: Max_ge)
  have hi: "\<forall>b \<in> set (drop p xs). ?M < f b"
    using split Min unfolding sorted_wrt_append by auto
  have "filter (\<lambda>r. ?M < f r) (take p xs @ drop p xs) = drop p xs"
    unfolding filter_append using lo hi by (simp add: filter_empty_conv filter_id_conv)
  then show ?thesis by simp
qed


lemma ceil_div_short:
  fixes n p :: nat
  assumes "0 < n" "n < p"
  shows "(n + p - 1) div p = 1"
proof -
  obtain m where m: "n = Suc m" using assms(1) by (cases n) auto
  have mp: "m div p = 0" using m assms(2) by simp
  have "(n + p - 1) div p = (m + p) div p" using m by simp
  also have "\<dots> = m div p + 1" using assms by simp
  finally show ?thesis using mp by simp
qed

lemma write_batch_events:
  assumes "write_batch ph n tot records = Inr (tot', evs)"
  shows "received evs = [] \<and> request_cursors evs = [] \<and> upserts evs = [records]"
  using assms
  by (auto simp: write_batch_def ebind_Inr_iff split: if_splits)

lemma watermark_iteration_empty:
  assumes "fetch ph (batch_num st + 1) (cursor st) (limit ph) = Some resp"
    and "status_code resp = 200" and "json_items resp = Some []"
  shows "watermark_iteration key ph st =
         Inr (Break, st\<lparr>batch_num := batch_num st + 1,
               trace := trace st @ [Request (cursor st) (limit ph) (Some resp),
                                    Print (No_more (cursor st))]\<rparr>)"
  using assms by (simp add: watermark_iteration_def Let_def)

lemma watermark_iteration_page:
  assumes "fetch ph (batch_num st + 1) (cursor st) (limit ph) = Some resp"
    and "status_code resp = 200" and "json_items resp = Some items" and "items \<noteq> []"
    and "max_key key items = Inr last_id"
    and "emap (transform ph) items = Inr records"
    and "write_batch ph (batch_num st + 1) (total st) records = Inr (tot, evs)"
  shows "watermark_iteration key ph st =
         Inr (if length items < limit ph
              then (Break, \<lparr>cursor = last_id, batch_num = batch_num st + 1, total = tot,
                     trace = trace st @ [Request (cursor st) (limit ph) (Some resp)] @ evs @
                             [Print (Last_batch (length items))]\<rparr>)
              else (Continue, \<lparr>cursor = last_id, batch_num = batch_num st + 1, total = tot,
                     trace = trace st @ [Request (cursor st) (limit ph) (Some resp)] @ evs @
                             [Sleep_ms 300]\<rparr>))"
  using assms by (simp add: watermark_iteration_def Let_def)

lemma next_page_filter:
  fixes f :: "'a \<Rightarrow> int"
  assumes srt: "sorted_wrt (\<lambda>a b. f a < f b) S" and p: "0 < p"
    and len: "p \<le> length (filter (\<lambda>r. c < f r) S)"
  shows "filter (\<lambda>r. Max (f ` set (take p (filter (\<lambda>r. c < f r) S))) < f r) S
         = drop p (filter (\<lambda>r. c < f r) S)"
proof -
  let ?R = "filter (\<lambda>r. c < f r) S"
  let ?M = "Max (f ` set (take p ?R))"
  have ne: "take p ?R \<noteq> []" using p len by auto
  have "?M \<in> f ` set (take p ?R)" using ne by (intro Max_in) auto
  then have "?M \<in> f ` set ?R" using set_take_subset[of p ?R] by blast
  then have cM: "c < ?M" by auto
  have "filter (\<lambda>r. ?M < f r) S = filter (\<lambda>r. ?M < f r) ?R"
    using cM by (auto simp: filter_filter intro!: filter_cong)
  also have "\<dots> = drop p ?R"
    using srt p len by (intro filter_above_take sorted_wrt_filter)
  finally show ?thesis .
qed

lemma watermark_loop_complete:
  assumes P: "0 < limit ph"
    and srt: "sorted_wrt (\<lambda>a b. int_id key a < int_id key b) S"
    and ids: "\<forall>r \<in> set S. \<exists>i. r key = Some (JInt i)"
    and src: "\<forall>n c. \<exists>resp. fetch ph n (JInt c) (limit ph) = Some resp \<and> status_code resp = 200 \<and>
                json_items resp = Some (take (limit ph) (filter (\<lambda>r. c < int_id key r) S))"
    and tf: "\<forall>r \<in> set S. \<exists>d. transform ph r = Inr d"
    and wr: "\<forall>n tot items records. items \<noteq> [] \<longrightarrow> set items \<subseteq> set S \<longrightarrow> emap (transform ph) items = Inr records
                \<longrightarrow> (\<exists>tot' evs. write_batch ph n tot records = Inr (tot', evs))"
    and cur: "cursor st = JInt c"
    and fuel: "length (filter (\<lambda>r. c < int_id key r) S) div limit ph < fuel"
  shows "\<exists>st'. while_true fuel (watermark_iteration key ph) st = Some (Inr st') \<and>
           received (trace st') = received (trace st) @ filter (\<lambda>r. c < int_id key r) S \<and>
           length (request_cursors (trace st')) =
             length (request_cursors (trace st)) + length (filter (\<lambda>r. c < int_id key r) S) div limit ph + 1 \<and>
           length (upserts (trace st')) =
             length (upserts (trace st)) + (length (filter (\<lambda>r. c < int_id key r) S) + limit ph - 1) div limit ph"
  using cur fuel
proof (induction fuel arbitrary: st c)
  case 0
  then show ?case by simp
next
  case (Suc k)
  let ?p = "limit ph"
  let ?R = "filter (\<lambda>r. c < int_id key r) S"
  let ?items = "take ?p ?R"
  let ?n = "batch_num st + 1"
  obtain resp where resp: "fetch ph ?n (cursor st) ?p = Some resp" "status_code resp = 200"
      "json_items resp = Some ?items"
    using src Suc.prems(1) by metis
  show ?case
  proof (cases "?R = []")
    case True
    have it: "watermark_iteration key ph st =
         Inr (Break, st\<lparr>batch_num := ?n,
               trace := trace st @ [Request (cursor st) ?p (Some resp), Print (No_more (cursor st))]\<rparr>)"
      using resp True by (intro watermark_iteration_empty) simp_all
    show ?thesis using True resp P by (simp add: it)
  next
    case False
    have ne: "?items \<noteq> []" using False P by simp
    have sub: "set ?items \<subseteq> set S" using set_take_subset[of ?p ?R] by auto
    have mk: "max_key key ?items = Inr (JInt (Max (int_id key ` set ?items)))"
      using ne sub ids by (intro max_key_int) auto
    obtain records where rec: "emap (transform ph) ?items = Inr records"
      using emap_total[of ?items "transform ph"] tf sub by blast
    obtain tot evs where w: "write_batch ph ?n (total st) records = Inr (tot, evs)"
      using wr ne sub rec by blast
    note ev = write_batch_events[OF w]
    let ?tr = "trace st @ [Request (cursor st) ?p (Some resp)] @ evs"
    note it = watermark_iteration_page[OF resp(1,2,3) ne mk rec w]
    show ?thesis
    proof (cases "length ?items < ?p")
      case True
      then have short: "length ?R < ?p" by auto
      then have all: "?items = ?R" by simp
      have d0: "length ?R div ?p = 0" using short by simp
      have "0 < length ?R" using False by simp
      then have d1: "(length ?R + ?p - 1) div ?p = 1" using short
        by (rule ceil_div_short)
      show ?thesis using True ev resp all d0 d1 by (simp add: it)
    next
      case full: False
      then have len: "?p \<le> length ?R" by auto
      let ?M = "Max (int_id key ` set ?items)"
      let ?st1 = "\<lparr>cursor = JInt ?M, batch_num = ?n, total = tot, trace = ?tr @ [Sleep_ms 300]\<rparr>"
      have nxt: "filter (\<lambda>r. ?M < int_id key r) S = drop ?p ?R"
        using srt P len by (rule next_page_filter)
      have fuel': "length (filter (\<lambda>r. ?M < int_id key r) S) div ?p < k"
        using Suc.prems(2) len P unfolding nxt by (simp add: le_div_geq)
      have c1: "cursor ?st1 = JInt ?M" by simp
      obtain st' where st': "while_true k (watermark_iteration key ph) ?st1 = Some (Inr st')"
        "received (trace st') = received (trace ?st1) @ drop ?p ?R"
        "length (request_cursors (trace st')) =
           length (request_cursors (trace ?st1)) + length (drop ?p ?R) div ?p + 1"
        "length (upserts (trace st')) =
           length (upserts (trace ?st1)) + (length (drop ?p ?R) + ?p - 1) div ?p"
        using Suc.IH[OF c1 fuel'] unfolding nxt by blast
      have run: "while_true (Suc k) (watermark_iteration key ph) st = Some (Inr st')"
        using full st'(1) by (simp add: it)
      have r: "received (trace st') = received (trace st) @ ?R"
        using st'(2) ev resp(2,3) append_take_drop_id[of ?p ?R] by simp
      have a1: "length ?R div ?p = Suc ((length ?R - ?p) div ?p)"
        using len P by (simp add: le_div_geq)
      have a2: "(length ?R + ?p - 1) div ?p = Suc ((length ?R - ?p + ?p - 1) div ?p)"
        using len P by (simp add: le_div_geq)
      have q: "length (request_cursors (trace st')) =
                 length (request_cursors (trace st)) + length ?R div ?p + 1"
        using st'(3) ev a1 by simp
      have u: "length (upserts (trace st')) =
                 length (upserts (trace st)) + (length ?R + ?p - 1) div ?p"
        using st'(4) ev a2 by simp
      show ?thesis using run r q u by blast
    qed
  qed
qed


lemma is_pos_int_iff: "is_pos_int v \<longleftrightarrow> (\<exists>i. v = Some (JInt i) \<and> 0 < i)"
  by (cases v rule: is_pos_int.cases) simp_all

lemma is_str_iff: "is_str v \<longleftrightarrow> (\<exists>s. v = Some (JStr s))"
  by (cases v rule: is_str.cases) simp_all

lemma min_from_ints:
  assumes "\<forall>v \<in> set vs. \<exists>i. v = JInt i"
  shows "\<exists>j. min_from (JInt m) vs = Inr (JInt j)"
  using assms by (induction vs arbitrary: m) auto

lemma max_vals_from_ints:
  assumes "\<forall>v \<in> set vs. \<exists>i. v = JInt i"
  shows "\<exists>j. max_vals_from (JInt m) vs = Inr (JInt j)"
  using assms by (induction vs arbitrary: m) auto

lemma min_from_strs:
  assumes "\<forall>v \<in> set vs. \<exists>s. v = JStr s"
  shows "\<exists>t. min_from (JStr m) vs = Inr (JStr t)"
  using assms by (induction vs arbitrary: m) auto

lemma max_vals_from_strs:
  assumes "\<forall>v \<in> set vs. \<exists>s. v = JStr s"
  shows "\<exists>t. max_vals_from (JStr m) vs = Inr (JStr t)"
  using assms by (induction vs arbitrary: m) auto

lemma id_range_ints:
  assumes "records \<noteq> []" "\<forall>d \<in> set records. \<exists>i. py_get d k = JInt i"
  shows "\<exists>r. id_range k records = Inr r"
proof -
  obtain d ds where rs: "records = d # ds" using assms(1) by (cases records) auto
  obtain i where i: "py_get d k = JInt i" using assms(2) rs by auto
  have rest: "\<forall>v \<in> set (map (\<lambda>r. py_get r k) ds). \<exists>i. v = JInt i" using assms(2) rs by auto
  obtain lo where lo: "min_from (JInt i) (map (\<lambda>r. py_get r k) ds) = Inr (JInt lo)"
    using min_from_ints[OF rest] by blast
  obtain hi where hi: "max_vals_from (JInt i) (map (\<lambda>r. py_get r k) ds) = Inr (JInt hi)"
    using max_vals_from_ints[OF rest] by blast
  show ?thesis using rs i lo hi by (simp add: id_range_def py_min_def py_max_def)
qed

lemma date_range_strs:
  assumes "\<forall>d \<in> set records. \<exists>s. py_get d ''tran_date'' = JStr s"
  shows "\<exists>r. date_range records = Inr r"
proof -
  let ?dates = "filter truthy (map (\<lambda>r. py_get r ''tran_date'') records)"
  have strs: "\<forall>v \<in> set ?dates. \<exists>s. v = JStr s" using assms by auto
  show ?thesis
  proof (cases ?dates)
    case Nil
    then show ?thesis by (simp add: date_range_def)
  next
    case (Cons v vs)
    obtain s where s: "v = JStr s" using strs Cons by auto
    have rest: "\<forall>v \<in> set vs. \<exists>s. v = JStr s" using strs Cons by auto
    obtain lo where lo: "min_from (JStr s) vs = Inr (JStr lo)" using min_from_strs[OF rest] by blast
    obtain hi where hi: "max_vals_from (JStr s) vs = Inr (JStr hi)"
      using max_vals_from_strs[OF rest] by blast
    show ?thesis using Cons s lo hi by (simp add: date_range_def py_min_def py_max_def)
  qed
qed

lemma truthy_present: "truthy (py_get t k) \<Longrightarrow> py_index t k = Inr (py_get t k)"
  by (cases "t k") (simp_all add: py_get_def py_index_def)

lemma float_or_none_converts:
  assumes "converts (to_float b) t k"
  shows "\<exists>v. float_or_none b t k = Inr v"
proof (cases "truthy (py_get t k)")
  case True
  then obtain x where "to_float b (py_get t k) = Inr x"
    using assms by (cases "to_float b (py_get t k)") (auto simp: converts_def)
  then show ?thesis using True by (simp add: float_or_none_def truthy_present)
next
  case False
  then show ?thesis by (simp add: float_or_none_def)
qed

lemma int_or_zero_converts:
  assumes "converts (to_int b) t k"
  shows "\<exists>v. int_or_zero b t k = Inr v"
proof (cases "truthy (py_get t k)")
  case True
  then obtain x where "to_int b (py_get t k) = Inr x"
    using assms by (cases "to_int b (py_get t k)") (auto simp: converts_def)
  then show ?thesis using True by (simp add: int_or_zero_def truthy_present)
next
  case False
  then show ?thesis by (simp add: int_or_zero_def)
qed

lemma transform_transaction_good:
  assumes "good_transaction b t"
  shows "\<exists>d. transform_transaction b t = Inr d \<and>
             (\<exists>i. py_get d ''ns_transaction_id'' = JInt i) \<and>
             (\<exists>s. py_get d ''tran_date'' = JStr s)"
proof -
  obtain i where i: "t ''transaction_id'' = Some (JInt i)"
    using assms by (auto simp: good_transaction_def is_pos_int_iff)
  obtain s where s: "t ''trandate'' = Some (JStr s)"
    using assms by (auto simp: good_transaction_def is_str_iff)
  obtain a c e where r: "t ''tranid'' = Some a" "t ''transaction_type'' = Some c"
      "t ''customer_id'' = Some e"
    using assms by (auto simp: good_transaction_def)
  have "converts (to_float b) t ''transaction_total''"
    using assms by (simp add: good_transaction_def)
  then obtain v where v: "float_or_none b t ''transaction_total'' = Inr v"
    using float_or_none_converts by blast
  show ?thesis using i s r v
    by (simp add: transform_transaction_def py_index_def py_get_def)
qed

lemma transform_line_item_good:
  assumes "good_line_item b li"
  shows "\<exists>d. transform_line_item b li = Inr d \<and> (\<exists>i. py_get d ''ns_line_id'' = JInt i)"
proof -
  obtain i where i: "li ''line_id'' = Some (JInt i)"
    using assms by (auto simp: good_line_item_def is_pos_int_iff)
  obtain a where r: "li ''transaction_id'' = Some a"
    using assms by (auto simp: good_line_item_def)
  have c: "converts (to_int b) li ''quantity''" "converts (to_float b) li ''rate''"
      "converts (to_float b) li ''netamount''" "converts (to_float b) li ''foreignamount''"
    using assms by (simp_all add: good_line_item_def)
  obtain q where q: "int_or_zero b li ''quantity'' = Inr q"
    using int_or_zero_converts[OF c(1)] by blast
  obtain v1 where v1: "float_or_none b li ''rate'' = Inr v1"
    using float_or_none_converts[OF c(2)] by blast
  obtain v2 where v2: "float_or_none b li ''netamount'' = Inr v2"
    using float_or_none_converts[OF c(3)] by blast
  obtain v3 where v3: "float_or_none b li ''foreignamount'' = Inr v3"
    using float_or_none_converts[OF c(4)] by blast
  show ?thesis using i r q v1 v2 v3
    by (simp add: transform_line_item_def py_index_def py_get_def)
qed

lemma emap_Inr_set:
  assumes "emap f xs = Inr ys"
  shows "\<forall>y \<in> set ys. \<exists>x \<in> set xs. f x = Inr y"
  using assms
proof (induction xs arbitrary: ys)
  case Nil
  then show ?case by simp
next
  case (Cons x xs)
  then obtain y ys' where y: "f x = Inr y" "emap f xs = Inr ys'" "ys = y # ys'"
    by (auto simp: ebind_Inr_iff)
  show ?case using Cons.IH[OF y(2)] y(1,3) by auto
qed

lemma post_on_conflict:
  "supabase_request_on_conflict http url endpoint ''POST'' data (Some (c # cs)) =
   http \<lparr>sb_method = ''POST'', sb_url = url @ ''/rest/v1/'' @ endpoint @ ''?on_conflict='' @ (c # cs),
         sb_prefer = ''resolution=merge-duplicates,return=minimal'', sb_data = data\<rparr>"
  by (simp add: supabase_request_on_conflict_def)

lemma post_plain:
  "supabase_request http url endpoint ''POST'' data =
   http \<lparr>sb_method = ''POST'', sb_url = url @ ''/rest/v1/'' @ endpoint,
         sb_prefer = ''resolution=merge-duplicates,return=minimal'', sb_data = data\<rparr>"
  by (simp add: supabase_request_def)

lemma write_batch_returns:
  assumes "\<not> isl (post ph n records)"
    and "\<exists>m. report ph n records (tot + length records) = Inr m"
  shows "\<exists>tot' evs. write_batch ph n tot records = Inr (tot', evs)"
proof -
  obtain sbr where "post ph n records = Inr sbr" using assms(1) by (cases "post ph n records") auto
  then show ?thesis using assms(2) by (auto simp: write_batch_def)
qed


lemma sorted_table:
  fixes f :: "'a \<Rightarrow> int"
  assumes "distinct (map f tbl)"
  shows "sorted_wrt (\<lambda>a b. f a < f b) (sort_key f tbl)"
proof -
  have "sorted (map f (sort_key f tbl))" by simp
  moreover have "distinct (map f (sort_key f tbl))"
    using assms by (simp add: distinct_map)
  ultimately have "sorted_wrt (<) (map f (sort_key f tbl))"
    by (simp add: strict_sorted_iff)
  then show ?thesis by (simp add: sorted_wrt_map)
qed

lemma answers_sorted:
  assumes "answers src key tbl psize"
  shows "\<forall>n c. \<exists>resp. src n (JInt c) psize = Some resp \<and> status_code resp = 200 \<and>
           json_items resp =
             Some (take psize (filter (\<lambda>r. c < int_id key r) (sort_key (int_id key) tbl)))"
  using assms by (simp add: answers_def run_query_def filter_sort)

lemma report_transactions_h1_returns:
  assumes "records \<noteq> []"
    and "\<forall>d \<in> set records. (\<exists>i. py_get d ''ns_transaction_id'' = JInt i) \<and>
                             (\<exists>s. py_get d ''tran_date'' = JStr s)"
  shows "\<exists>m. report_transactions_h1 n records tot = Inr m"
proof -
  obtain dr where dr: "date_range records = Inr dr"
    using date_range_strs[of records] assms(2) by blast
  obtain ir where ir: "id_range ''ns_transaction_id'' records = Inr ir"
    using id_range_ints[OF assms(1), of "''ns_transaction_id''"] assms(2) by blast
  show ?thesis by (simp add: report_transactions_h1_def dr ir)
qed

lemma report_line_items_h1_returns:
  assumes "records \<noteq> []"
    and "\<forall>d \<in> set records. \<exists>i. py_get d ''ns_line_id'' = JInt i"
  shows "\<exists>m. report_line_items_h1 n records tot = Inr m"
proof -
  obtain ir where ir: "id_range ''ns_line_id'' records = Inr ir"
    using id_range_ints[OF assms(1), of "''ns_line_id''"] assms(2) by blast
  show ?thesis by (simp add: report_line_items_h1_def ir)
qed

lemma positive_ids_all:
  assumes "\<forall>r \<in> set S. is_pos_int (r key)"
  shows "filter (\<lambda>r. 0 < int_id key r) S = S"
  using assms by (auto simp: filter_id_conv is_pos_int_iff int_id_def)

lemma sync_transactions_complete:
  assumes P: "0 < psize"
    and good: "\<forall>t \<in> set tbl. good_transaction (py w) t"
    and dist: "distinct (map (int_id ''transaction_id'') tbl)"
    and src: "answers (ns_transactions w) ''transaction_id'' tbl psize"
    and wr: "writes_return w"
    and fuel: "length tbl div psize < fuel"
  shows "\<exists>st. sync_transactions w psize fuel = Some (Inr st) \<and>
           received (trace st) = sort_key (int_id ''transaction_id'') tbl \<and>
           length (request_cursors (trace st)) = length tbl div psize + 1 \<and>
           length (upserts (trace st)) = (length tbl + psize - 1) div psize"
proof -
  let ?key = "''transaction_id''"
  let ?S = "sort_key (int_id ?key) tbl"
  let ?ph = "transactions_h1 w psize"
  have lim: "limit ?ph = psize" by (simp add: transactions_h1_def)
  have pos: "\<forall>r \<in> set ?S. is_pos_int (r ?key)" using good by (simp add: good_transaction_def)
  have all: "filter (\<lambda>r. 0 < int_id ?key r) ?S = ?S" using pos by (rule positive_ids_all)
  have 1: "0 < limit ?ph" using P lim by simp
  have 2: "sorted_wrt (\<lambda>a b. int_id ?key a < int_id ?key b) ?S" using dist by (rule sorted_table)
  have 3: "\<forall>r \<in> set ?S. \<exists>i. r ?key = Some (JInt i)" using pos by (auto simp: is_pos_int_iff)
  have 4: "\<forall>n c. \<exists>resp. fetch ?ph n (JInt c) (limit ?ph) = Some resp \<and> status_code resp = 200 \<and>
             json_items resp = Some (take (limit ?ph) (filter (\<lambda>r. c < int_id ?key r) ?S))"
    using answers_sorted[OF src] by (simp add: transactions_h1_def)
  have 5: "\<forall>r \<in> set ?S. \<exists>d. transform ?ph r = Inr d"
    using good transform_transaction_good by (fastforce simp: transactions_h1_def)
  have 6: "\<forall>n tot items records. items \<noteq> [] \<longrightarrow> set items \<subseteq> set ?S \<longrightarrow>
             emap (transform ?ph) items = Inr records \<longrightarrow>
             (\<exists>tot' evs. write_batch ?ph n tot records = Inr (tot', evs))"
  proof (intro allI impI)
    fix n tot items records
    assume ne: "items \<noteq> []" and sub: "set items \<subseteq> set ?S"
      and em: "emap (transform ?ph) items = Inr records"
    have rne: "records \<noteq> []" using emap_Inr_length[OF em] ne by auto
    have "\<forall>d \<in> set records. \<exists>t \<in> set items. transform_transaction (py w) t = Inr d"
      using emap_Inr_set[OF em] by (simp add: transactions_h1_def)
    then have shape: "\<forall>d \<in> set records. (\<exists>i. py_get d ''ns_transaction_id'' = JInt i) \<and>
                             (\<exists>s. py_get d ''tran_date'' = JStr s)"
      using sub good transform_transaction_good by fastforce
    have a: "\<not> isl (post ?ph n records)"
      using wr by (simp add: transactions_h1_def post_on_conflict writes_return_def)
    have b: "\<exists>m. report ?ph n records (tot + length records) = Inr m"
      using report_transactions_h1_returns[OF rne shape] by (simp add: transactions_h1_def)
    show "\<exists>tot' evs. write_batch ?ph n tot records = Inr (tot', evs)"
      using a b by (rule write_batch_returns)
  qed
  have 7: "cursor (start (JInt 0)) = JInt 0" by (simp add: start_def)
  have 8: "length (filter (\<lambda>r. 0 < int_id ?key r) ?S) div limit ?ph < fuel"
    using fuel by (simp add: all lim)
  show ?thesis
    using watermark_loop_complete[OF 1 2 3 4 5 6 7 8]
    by (simp add: sync_transactions_def all lim start_def)
qed

lemma sync_line_items_complete:
  assumes P: "0 < psize"
    and good: "\<forall>t \<in> set tbl. good_line_item (py w) t"
    and dist: "distinct (map (int_id ''line_id'') tbl)"
    and src: "answers (ns_line_items w) ''line_id'' tbl psize"
    and wr: "writes_return w"
    and fuel: "length tbl div psize < fuel"
  shows "\<exists>st. sync_line_items w psize fuel = Some (Inr st) \<and>
           received (trace st) = sort_key (int_id ''line_id'') tbl \<and>
           length (request_cursors (trace st)) = length tbl div psize + 1 \<and>
           length (upserts (trace st)) = (length tbl + psize - 1) div psize"
proof -
  let ?key = "''line_id''"
  let ?S = "sort_key (int_id ?key) tbl"
  let ?ph = "line_items_h1 w psize"
  have lim: "limit ?ph = psize" by (simp add: line_items_h1_def)
  have pos: "\<forall>r \<in> set ?S. is_pos_int (r ?key)" using good by (simp add: good_line_item_def)
  have all: "filter (\<lambda>r. 0 < int_id ?key r) ?S = ?S" using pos by (rule positive_ids_all)
  have 1: "0 < limit ?ph" using P lim by simp
  have 2: "sorted_wrt (\<lambda>a b. int_id ?key a < int_id ?key b) ?S" using dist by (rule sorted_table)
  have 3: "\<forall>r \<in> set ?S. \<exists>i. r ?key = Some (JInt i)" using pos by (auto simp: is_pos_int_iff)
  have 4: "\<forall>n c. \<exists>resp. fetch ?ph n (JInt c) (limit ?ph) = Some resp \<and> status_code resp = 200 \<and>
             json_items resp = Some (take (limit ?ph) (filter (\<lambda>r. c < int_id ?key r) ?S))"
    using answers_sorted[OF src] by (simp add: line_items_h1_def)
  have 5: "\<forall>r \<in> set ?S. \<exists>d. transform ?ph r = Inr d"
    using good transform_line_item_good by (fastforce simp: line_items_h1_def)
  have 6: "\<forall>n tot items records. items \<noteq> [] \<longrightarrow> set items \<subseteq> set ?S \<longrightarrow>
             emap (transform ?ph) items = Inr records \<longrightarrow>
             (\<exists>tot' evs. write_batch ?ph n tot records = Inr (tot', evs))"
  proof (intro allI impI)
    fix n tot items records
    assume ne: "items \<noteq> []" and sub: "set items \<subseteq> set ?S"
      and em: "emap (transform ?ph) items = Inr records"
    have rne: "records \<noteq> []" using emap_Inr_length[OF em] ne by auto
    have "\<forall>d \<in> set records. \<exists>t \<in> set items. transform_line_item (py w) t = Inr d"
      using emap_Inr_set[OF em] by (simp add: line_items_h1_def)
    then have shape: "\<forall>d \<in> set records. \<exists>i. py_get d ''ns_line_id'' = JInt i"
      using sub good transform_line_item_good by fastforce
    have a: "\<not> isl (post ?ph n records)"
      using wr by (simp add: line_items_h1_def post_on_conflict writes_return_def)
    have b: "\<exists>m. report ?ph n records (tot + length records) = Inr m"
      using report_line_items_h1_returns[OF rne shape] by (simp add: line_items_h1_def)
    show "\<exists>tot' evs. write_batch ?ph n tot records = Inr (tot', evs)"
      using a b by (rule write_batch_returns)
  qed
  have 7: "cursor (start (JInt 0)) = JInt 0" by (simp add: start_def)
  have 8: "length (filter (\<lambda>r. 0 < int_id ?key r) ?S) div limit ?ph < fuel"
    using fuel by (simp add: all lim)
  show ?thesis
    using watermark_loop_complete[OF 1 2 3 4 5 6 7 8]
    by (simp add: sync_line_items_def all lim start_def)
qed

lemma fetches_vs_ceiling:
  fixes n p :: nat
  assumes "0 < p"
  shows "n div p + 1 = (n + p - 1) div p + (if p dvd n then 1 else 0)"
proof (cases "p dvd n")
  case True
  then obtain q where q: "n = p * q" by (auto simp: dvd_def)
  have "(p * q + p - 1) div p = q"
    using assms by (intro div_nat_eqI) (auto simp: algebra_simps)
  then show ?thesis using True q assms by simp
next
  case False
  then have r: "0 < n mod p" by (simp add: dvd_eq_mod_eq_0)
  have r2: "n mod p < p" using assms by simp
  have e: "n + p - 1 = (n mod p + p - 1) + n div p * p"
    using r by (simp add: algebra_simps)
  have "(n + p - 1) div p = ((n mod p + p - 1) + n div p * p) div p"
    by (simp only: e)
  also have "\<dots> = (n mod p + p - 1) div p + n div p"
  proof -
    have "(a + b * p) div p = a div p + b" for a b :: nat using assms by simp
    then show ?thesis .
  qed
  also have "(n mod p + p - 1) div p = 1" using r r2 by (rule ceil_div_short)
  finally show ?thesis using False by simp
qed

lemma float_or_none_falsy: "\<not> truthy (py_get t k) \<Longrightarrow> float_or_none b t k = Inr JNull"
  by (simp add: float_or_none_def)

lemma int_or_zero_falsy: "\<not> truthy (py_get t k) \<Longrightarrow> int_or_zero b t k = Inr (JInt 0)"
  by (simp add: int_or_zero_def)

lemma py_get_absent: "d k = None \<Longrightarrow> py_get d k = JNull"
  by (simp add: py_get_def)

lemma py_get_present: "d k = Some v \<Longrightarrow> py_get d k = v"
  by (simp add: py_get_def)

lemma quote_append: "quote (s @ t) safe = quote s safe @ quote t safe"
  by (simp add: quote_def)

lemma sorted_fst: "sorted (xs :: (string \<times> string) list) \<Longrightarrow> sorted (map fst xs)"
  by (induction xs) (auto simp: less_eq_prod_def)


lemma attempts_retried:
  assumes "\<forall>a \<in> set pre. retried (reply net a (signed_header cr net url method a))"
  shows "attempts cr net url method (pre @ rest) =
         (fst (attempts cr net url method rest),
          concat (map (retry_events cr net url method) pre) @ snd (attempts cr net url method rest))"
  using assms
  by (induction pre) (auto simp: retry_events_def Let_def split: outcome.splits prod.splits)

lemma attempts_returns:
  assumes "reply net k (signed_header cr net url method k) = Responds resp" "status_code resp \<noteq> 429"
  shows "attempts cr net url method (k # rest) = (Some resp, [http_call method (signed_header cr net url method k)])"
  using assms by simp

lemma all429:
  assumes "\<forall>a<n. \<exists>r. reply net a (signed_header cr net url method a) = Responds r \<and> status_code r = 429"
  shows "make_ns_request cr net url method n = (None, concat (map (\<lambda>a. [http_call method (signed_header cr net url method a), Print_rate_limited, Sleep_s 30]) [0..<n]))"
proof -
  have r: "\<forall>a \<in> set [0..<n]. retried (reply net a (signed_header cr net url method a))"
    using assms by auto
  have e: "map (retry_events cr net url method) [0..<n] = map (\<lambda>a. [http_call method (signed_header cr net url method a), Print_rate_limited, Sleep_s 30]) [0..<n]"
    using assms by (auto simp: retry_events_def Let_def)
  show ?thesis
    using attempts_retried[OF r, of "[]"] by (simp add: make_ns_request_def e)
qed

lemma upt_3: "[0..<3] = [0, 1, 2]"
  by (simp add: upt_rec)

lemma table_source_answers: "answers (table_source key tbl) key tbl psize"
  by (simp add: answers_def table_source_def)

lemma h1_world_writes: "writes_return (h1_world txns lines)"
  by (simp add: writes_return_def h1_world_def accepting_def)

lemma good_txn: "0 < i \<Longrightarrow> good_transaction no_conversion (txn i)"
  by (simp add: good_transaction_def txn_def converts_def py_get_def)

lemma good_line: "0 < i \<Longrightarrow> good_line_item no_conversion (line i)"
  by (simp add: good_line_item_def line_def converts_def py_get_def)

lemma int_id_txn [simp]: "int_id ''transaction_id'' (txn i) = i"
  by (simp add: int_id_def txn_def)

lemma int_id_line [simp]: "int_id ''line_id'' (line i) = i"
  by (simp add: int_id_def line_def)

lemma h1_world_sel [simp]:
  "py (h1_world txns lines) = no_conversion"
  "ns_transactions (h1_world txns lines) = table_source ''transaction_id'' txns"
  "ns_line_items (h1_world txns lines) = table_source ''line_id'' lines"
  by (simp_all add: h1_world_def)

section \<open>Pagination completeness in watermark mode\<close>

text \<open>
  Claim C1, as the code has it. Let the table hold \<open>N\<close> rows with distinct positive integer
  ids on which the transform and the success line do not raise, let the source answer the
  watermark query (\<^verbatim>\<open>id > last_id\<close>, ascending by id, first \<open>P\<close> rows) from that table, and
  let the destination answer every write. Then \<^verbatim>\<open>sync_transactions\<close> and
  \<^verbatim>\<open>sync_line_items\<close> return; the pages they read, one after the other, are the table in
  ascending id order, so every row is read exactly once; the batches written number
  \<open>\<lceil>N/P\<rceil>\<close>; and the queries issued number \<open>\<lfloor>N/P\<rfloor> + 1\<close>, which is \<open>\<lceil>N/P\<rceil>\<close> when \<open>P\<close> does
  not divide \<open>N\<close> and one more than that when it does (the last query then returns the empty
  page that ends the loop). Any number of iterations above \<open>\<lfloor>N/P\<rfloor>\<close> suffices.
\<close>

theorem watermark_pagination_complete:
  assumes "0 < psize" and "writes_return w" and "length tbl div psize < fuel"
  shows
    "((\<forall>t \<in> set tbl. good_transaction (py w) t) \<and> distinct (map (int_id ''transaction_id'') tbl) \<and>
      answers (ns_transactions w) ''transaction_id'' tbl psize \<longrightarrow>
      (\<exists>st. sync_transactions w psize fuel = Some (Inr st) \<and>
            received (trace st) = sort_key (int_id ''transaction_id'') tbl \<and>
            mset (received (trace st)) = mset tbl \<and>
            length (upserts (trace st)) = (length tbl + psize - 1) div psize \<and>
            length (request_cursors (trace st)) =
              (length tbl + psize - 1) div psize + (if psize dvd length tbl then 1 else 0))) \<and>
     ((\<forall>t \<in> set tbl. good_line_item (py w) t) \<and> distinct (map (int_id ''line_id'') tbl) \<and>
      answers (ns_line_items w) ''line_id'' tbl psize \<longrightarrow>
      (\<exists>st. sync_line_items w psize fuel = Some (Inr st) \<and>
            received (trace st) = sort_key (int_id ''line_id'') tbl \<and>
            mset (received (trace st)) = mset tbl \<and>
            length (upserts (trace st)) = (length tbl + psize - 1) div psize \<and>
            length (request_cursors (trace st)) =
              (length tbl + psize - 1) div psize + (if psize dvd length tbl then 1 else 0)))"
proof (intro conjI impI)
  assume a: "(\<forall>t \<in> set tbl. good_transaction (py w) t) \<and> distinct (map (int_id ''transaction_id'') tbl) \<and>
      answers (ns_transactions w) ''transaction_id'' tbl psize"
  obtain st where st: "sync_transactions w psize fuel = Some (Inr st)"
      "received (trace st) = sort_key (int_id ''transaction_id'') tbl"
      "length (request_cursors (trace st)) = length tbl div psize + 1"
      "length (upserts (trace st)) = (length tbl + psize - 1) div psize"
    using sync_transactions_complete[of psize tbl w fuel] a assms by blast
  have "mset (received (trace st)) = mset tbl" by (simp add: st(2))
  then show "\<exists>st. sync_transactions w psize fuel = Some (Inr st) \<and>
            received (trace st) = sort_key (int_id ''transaction_id'') tbl \<and>
            mset (received (trace st)) = mset tbl \<and>
            length (upserts (trace st)) = (length tbl + psize - 1) div psize \<and>
            length (request_cursors (trace st)) =
              (length tbl + psize - 1) div psize + (if psize dvd length tbl then 1 else 0)"
    using st fetches_vs_ceiling[OF assms(1), of "length tbl"] by auto
next
  assume a: "(\<forall>t \<in> set tbl. good_line_item (py w) t) \<and> distinct (map (int_id ''line_id'') tbl) \<and>
      answers (ns_line_items w) ''line_id'' tbl psize"
  obtain st where st: "sync_line_items w psize fuel = Some (Inr st)"
      "received (trace st) = sort_key (int_id ''line_id'') tbl"
      "length (request_cursors (trace st)) = length tbl div psize + 1"
      "length (upserts (trace st)) = (length tbl + psize - 1) div psize"
    using sync_line_items_complete[of psize tbl w fuel] a assms by blast
  have "mset (received (trace st)) = mset tbl" by (simp add: st(2))
  then show "\<exists>st. sync_line_items w psize fuel = Some (Inr st) \<and>
            received (trace st) = sort_key (int_id ''line_id'') tbl \<and>
            mset (received (trace st)) = mset tbl \<and>
            length (upserts (trace st)) = (length tbl + psize - 1) div psize \<and>
            length (request_cursors (trace st)) =
              (length tbl + psize - 1) div psize + (if psize dvd length tbl then 1 else 0)"
    using st fetches_vs_ceiling[OF assms(1), of "length tbl"] by auto
qed

text \<open>
  The theorem at a table of three transactions and one of two line items, with pages of
  two rows: two queries each, two batches and one batch.
\<close>

theorem watermark_pagination_complete_witness:
  "(\<exists>st. sync_transactions (h1_world [txn 3, txn 1, txn 2] [line 2, line 1]) 2 5 = Some (Inr st) \<and>
         received (trace st) = [txn 1, txn 2, txn 3] \<and>
         length (upserts (trace st)) = 2 \<and> length (request_cursors (trace st)) = 2) \<and>
   (\<exists>st. sync_line_items (h1_world [txn 3, txn 1, txn 2] [line 2, line 1]) 2 5 = Some (Inr st) \<and>
         received (trace st) = [line 1, line 2] \<and>
         length (upserts (trace st)) = 1 \<and> length (request_cursors (trace st)) = 2)"
proof -
  let ?w = "h1_world [txn 3, txn 1, txn 2] [line 2, line 1]"
  have p: "(0::nat) < 2" by simp
  note wr = h1_world_writes[of "[txn 3, txn 1, txn 2]" "[line 2, line 1]"]
  have f1: "length [txn 3, txn 1, txn 2] div 2 < (5::nat)" by simp
  have f2: "length [line 2, line 1] div 2 < (5::nat)" by simp
  have t: "(\<forall>t \<in> set [txn 3, txn 1, txn 2]. good_transaction (py ?w) t) \<and>
           distinct (map (int_id ''transaction_id'') [txn 3, txn 1, txn 2]) \<and>
           answers (ns_transactions ?w) ''transaction_id'' [txn 3, txn 1, txn 2] 2"
    by (simp add: good_txn table_source_answers)
  have l: "(\<forall>t \<in> set [line 2, line 1]. good_line_item (py ?w) t) \<and>
           distinct (map (int_id ''line_id'') [line 2, line 1]) \<and>
           answers (ns_line_items ?w) ''line_id'' [line 2, line 1] 2"
    by (simp add: good_line table_source_answers)
  have a: "\<exists>st. sync_transactions ?w 2 5 = Some (Inr st) \<and>
         received (trace st) = [txn 1, txn 2, txn 3] \<and>
         length (upserts (trace st)) = 2 \<and> length (request_cursors (trace st)) = 2"
    using watermark_pagination_complete[OF p wr f1, THEN conjunct1, rule_format, OF t] by auto
  have b: "\<exists>st. sync_line_items ?w 2 5 = Some (Inr st) \<and>
         received (trace st) = [line 1, line 2] \<and>
         length (upserts (trace st)) = 1 \<and> length (request_cursors (trace st)) = 2"
    using watermark_pagination_complete[OF p wr f2, THEN conjunct2, rule_format, OF l] by auto
  show ?thesis using a b by blast
qed

text \<open>
  Claim C1 as stated fails on the number of queries: with \<open>N = 2\<close> rows and pages of
  \<open>P = 2\<close> the ceiling is 1, and the phase issues 2 queries, the second one returning the
  empty page.
\<close>

theorem extra_fetch_on_full_last_page:
  "fetch_count (sync_transactions (h1_world [txn 1, txn 2] []) 2 5) = Some 2 \<and>
   (length [txn 1, txn 2] + 2 - 1) div 2 = (1::nat)"
proof -
  let ?w = "h1_world [txn 1, txn 2] []"
  have "\<exists>st. sync_transactions ?w 2 5 = Some (Inr st) \<and>
           received (trace st) = sort_key (int_id ''transaction_id'') [txn 1, txn 2] \<and>
           length (request_cursors (trace st)) = length [txn 1, txn 2] div 2 + 1 \<and>
           length (upserts (trace st)) = (length [txn 1, txn 2] + 2 - 1) div 2"
    by (rule sync_transactions_complete)
       (simp_all add: good_txn table_source_answers h1_world_writes)
  then show ?thesis by (auto simp: fetch_count_def)
qed

section \<open>The canonical form that is signed\<close>

text \<open>
  Claim C2, as the code has it. The parameters enter the base string sorted by name, each
  as \<^verbatim>\<open>name=quote(value)\<close>; the URL (up to its query part) and the parameter string are
  quoted again in the base string. Quoting with an empty \<^verbatim>\<open>safe\<close> works byte by byte: a
  letter, a digit or one of \<^verbatim>\<open>_ . - ~\<close> is kept, every other byte becomes \<^verbatim>\<open>%XX\<close>. So
  \<^verbatim>\<open>/\<close> is escaped and \<^verbatim>\<open>~\<close> is not.
\<close>

theorem signing_canonicalization:
  "(\<exists>qs. mset qs = mset ps \<and> sorted (map fst qs) \<and>
         params_string ps = str_join ''&'' (map (\<lambda>(k, v). k @ ''='' @ quote v []) qs)) \<and>
   base_string method url ps =
     method @ ''&'' @ quote (url_base url) [] @ ''&'' @ quote (params_string ps) [] \<and>
   quote (s @ s') [] = quote s [] @ quote s' [] \<and>
   quote [c] [] =
     (if c \<in> set always_safe then [c]
      else [CHR ''%'', hex_digit (of_char c div 16), hex_digit (of_char c mod 16)]) \<and>
   CHR ''~'' \<in> set always_safe \<and> CHR ''/'' \<notin> set always_safe \<and>
   quote ''~'' [] = ''~'' \<and> quote ''/'' [] = ''%2F''"
proof -
  have "mset (sort ps) = mset ps \<and> sorted (map fst (sort ps)) \<and>
        params_string ps = str_join ''&'' (map (\<lambda>(k, v). k @ ''='' @ quote v []) (sort ps))"
    by (simp add: params_string_def sorted_fst)
  then have 1: "\<exists>qs. mset qs = mset ps \<and> sorted (map fst qs) \<and>
         params_string ps = str_join ''&'' (map (\<lambda>(k, v). k @ ''='' @ quote v []) qs)"
    by blast
  have 2: "quote [c] [] =
     (if c \<in> set always_safe then [c]
      else [CHR ''%'', hex_digit (of_char c div 16), hex_digit (of_char c mod 16)])"
    by (simp add: quote_def quote_byte_def)
  have 3: "CHR ''~'' \<in> set always_safe \<and> CHR ''/'' \<notin> set always_safe"
    by (simp add: always_safe_def)
  have 4: "quote ''~'' [] = ''~'' \<and> quote ''/'' [] = ''%2F''"
    by (simp add: quote_def quote_byte_def always_safe_def hex_digit_def)
  show ?thesis using 1 2 3 4 by (simp add: base_string_def quote_append)
qed

text \<open>
  Claim C2 as stated fails where it says that a \<^verbatim>\<open>~\<close> is escaped: in the URL and in a
  parameter value it reaches the base string as it is.
\<close>

theorem tilde_left_unescaped:
  "base_string ''POST'' ''https://h/~x?y'' [(''oauth_token'', ''a~b'')] =
     ''POST&https%3A%2F%2Fh%2F~x&oauth_token%3Da~b''"
  by (simp add: base_string_def url_base_def params_string_def quote_def quote_byte_def
      always_safe_def hex_digit_def)

section \<open>The bound on retries\<close>

text \<open>
  Claim C3, as the code has it. When each of the three attempts is answered with status
  429, \<^verbatim>\<open>make_ns_request\<close> sends three requests, each signed anew, prints and waits 30
  seconds after each of them (twice between attempts and once more after the last
  attempt), and returns \<^verbatim>\<open>None\<close>.
\<close>

theorem retry_bound:
  assumes "\<forall>a<3. \<exists>r. reply net a (signed_header cr net url method a) = Responds r \<and> status_code r = 429"
  shows "make_ns_request cr net url method 3 =
           (None, [http_call method (signed_header cr net url method 0), Print_rate_limited, Sleep_s 30,
                   http_call method (signed_header cr net url method 1), Print_rate_limited, Sleep_s 30,
                   http_call method (signed_header cr net url method 2), Print_rate_limited, Sleep_s 30])"
  using all429[OF assms] by (simp add: upt_3)

theorem retry_bound_witness:
  "fst (make_ns_request demo_credentials (replying 429) ''https://ns/suiteql'' ''POST'' 3) = None \<and>
   map is_http (snd (make_ns_request demo_credentials (replying 429) ''https://ns/suiteql'' ''POST'' 3)) =
     [True, False, False, True, False, False, True, False, False]"
proof -
  have h: "\<forall>a<3. \<exists>r. reply (replying 429) a
              (signed_header demo_credentials (replying 429) ''https://ns/suiteql'' ''POST'' a) = Responds r \<and>
              status_code r = 429"
    by (simp add: replying_def)
  show ?thesis using retry_bound[OF h] by (simp add: http_call_def)
qed

text \<open>
  Claim C3 as stated fails on the number of waits: there are three waits of 30 seconds,
  not two, and the call ends with a wait, not with an attempt.
\<close>

theorem third_wait_after_last_attempt:
  "length (filter (\<lambda>e. e = Sleep_s 30)
     (snd (make_ns_request demo_credentials (replying 429) ''https://ns/suiteql'' ''POST'' 3))) = 3 \<and>
   last (snd (make_ns_request demo_credentials (replying 429) ''https://ns/suiteql'' ''POST'' 3)) = Sleep_s 30"
proof -
  have h: "\<forall>a<3. \<exists>r. reply (replying 429) a
              (signed_header demo_credentials (replying 429) ''https://ns/suiteql'' ''POST'' a) = Responds r \<and>
              status_code r = 429"
    by (simp add: replying_def)
  show ?thesis using all429[OF h] by (simp add: upt_3 http_call_def)
qed

section \<open>Statuses that are not retried\<close>

text \<open>
  Claim C6. When an attempt within the bound receives a response whose status is not 429
  (the attempts before it having been retried), \<^verbatim>\<open>make_ns_request\<close> returns that response,
  and the request that received it is the last thing the call does: no further attempt,
  no print, no wait.
\<close>

theorem other_status_returned:
  assumes "k < retries"
    and "\<forall>a<k. retried (reply net a (signed_header cr net url method a))"
    and "reply net k (signed_header cr net url method k) = Responds resp"
    and "status_code resp \<noteq> 429"
  shows "make_ns_request cr net url method retries =
           (Some resp, concat (map (retry_events cr net url method) [0..<k]) @
                       [http_call method (signed_header cr net url method k)])"
proof -
  have split: "[0..<retries] = [0..<k] @ k # [Suc k..<retries]"
    using assms(1) by (metis less_imp_le_nat upt_add_eq_append upt_conv_Cons le_add_diff_inverse zero_le) 
  have pre: "\<forall>a \<in> set [0..<k]. retried (reply net a (signed_header cr net url method a))"
    using assms(2) by simp
  show ?thesis
    unfolding make_ns_request_def split attempts_retried[OF pre]
    using attempts_returns[OF assms(3,4)] by simp
qed

theorem other_status_returned_witness:
  "make_ns_request demo_credentials (limited_then 1 500) ''https://ns/suiteql'' ''POST'' 3 =
     (Some \<lparr>status_code = 500, body_text = [], json_items = None\<rparr>,
      [Http_post (signed_header demo_credentials (limited_then 1 500) ''https://ns/suiteql'' ''POST'' 0),
       Print_rate_limited, Sleep_s 30,
       Http_post (signed_header demo_credentials (limited_then 1 500) ''https://ns/suiteql'' ''POST'' 1)])"
proof -
  let ?net = "limited_then 1 500"
  let ?h = "signed_header demo_credentials ?net ''https://ns/suiteql'' ''POST''"
  have a: "(1::nat) < 3" by simp
  have b: "\<forall>a<(1::nat). retried (reply ?net a (?h a))"
    by (simp add: limited_then_def)
  have c: "reply ?net 1 (?h 1) = Responds \<lparr>status_code = 500, body_text = [], json_items = None\<rparr>"
    by (simp add: limited_then_def)
  have d: "status_code \<lparr>status_code = 500, body_text = [], json_items = None\<rparr> \<noteq> 429" by simp
  have e: "retry_events demo_credentials ?net ''https://ns/suiteql'' ''POST'' 0 =
             [Http_post (?h 0), Print_rate_limited, Sleep_s 30]"
    by (simp add: retry_events_def limited_then_def http_call_def)
  show ?thesis using other_status_returned[OF a b c d] e by (simp add: http_call_def)
qed

section \<open>Coercion of absent and false values\<close>

text \<open>
  Claim C9. Whenever the line item transform returns a record: an absent
  \<^verbatim>\<open>quantity\<close> gives quantity 0, and an absent \<^verbatim>\<open>rate\<close>, \<^verbatim>\<open>netamount\<close> or
  \<^verbatim>\<open>foreignamount\<close> gives \<^verbatim>\<open>None\<close> (JSON null) in the record, not 0.
\<close>

theorem null_vs_zero_coercion:
  assumes "transform_line_item b li = Inr r"
  shows "(li ''quantity'' = None \<longrightarrow> r ''quantity'' = Some (JInt 0)) \<and>
         (li ''rate'' = None \<longrightarrow> r ''rate'' = Some JNull) \<and>
         (li ''netamount'' = None \<longrightarrow> r ''net_amount'' = Some JNull) \<and>
         (li ''foreignamount'' = None \<longrightarrow> r ''foreign_amount'' = Some JNull)"
  using assms
  by (auto simp: transform_line_item_def ebind_Inr_iff float_or_none_falsy int_or_zero_falsy
      py_get_absent)

theorem null_vs_zero_coercion_witness:
  "\<exists>r. transform_line_item no_conversion (line 5) = Inr r \<and>
       line 5 ''quantity'' = None \<and> r ''quantity'' = Some (JInt 0) \<and>
       line 5 ''rate'' = None \<and> r ''rate'' = Some JNull \<and>
       r ''net_amount'' = Some JNull \<and> r ''foreign_amount'' = Some JNull"
proof -
  obtain r where r: "transform_line_item no_conversion (line 5) = Inr r"
    by (simp add: transform_line_item_def line_def py_index_def py_get_def int_or_zero_def
        float_or_none_def)
  have absent: "line 5 ''quantity'' = None" "line 5 ''rate'' = None"
      "line 5 ''netamount'' = None" "line 5 ''foreignamount'' = None"
    by (simp_all add: line_def)
  show ?thesis using null_vs_zero_coercion[OF r] r absent by blast
qed

text \<open>
  Claim C10. The coercion tests the truth value of the field, not its presence. A
  \<^verbatim>\<open>rate\<close>, \<^verbatim>\<open>netamount\<close> or \<^verbatim>\<open>foreignamount\<close> that is present but false (0, 0.0, the
  empty string, null) gives null, a false \<^verbatim>\<open>quantity\<close> gives 0, and a transaction whose
  total is present but false gets \<^verbatim>\<open>foreign_total\<close> null. The transform cannot tell a
  false rate from an absent one: both rows give the same result.
\<close>

theorem truthiness_decides_coercion:
  "(transform_line_item b li = Inr r \<and> \<not> truthy v \<longrightarrow>
      (li ''rate'' = Some v \<longrightarrow> r ''rate'' = Some JNull) \<and>
      (li ''netamount'' = Some v \<longrightarrow> r ''net_amount'' = Some JNull) \<and>
      (li ''foreignamount'' = Some v \<longrightarrow> r ''foreign_amount'' = Some JNull) \<and>
      (li ''quantity'' = Some v \<longrightarrow> r ''quantity'' = Some (JInt 0))) \<and>
   (transform_transaction b t = Inr r' \<and> \<not> truthy v \<and> t ''transaction_total'' = Some v \<longrightarrow>
      r' ''foreign_total'' = Some JNull) \<and>
   (\<not> truthy v \<longrightarrow>
      transform_line_item b (li(''rate'' \<mapsto> v)) = transform_line_item b (li(''rate'' := None)))"
proof (intro conjI impI)
  assume "\<not> truthy v"
  then show "transform_line_item b (li(''rate'' \<mapsto> v)) = transform_line_item b (li(''rate'' := None))"
    by (simp add: transform_line_item_def float_or_none_def int_or_zero_def py_get_def
        py_index_def py_get_default_def)
qed (auto simp: transform_line_item_def transform_transaction_def ebind_Inr_iff
      float_or_none_falsy int_or_zero_falsy py_get_present)

theorem truthiness_decides_coercion_witness:
  "\<exists>r r'. transform_line_item no_conversion ((line 5)(''rate'' \<mapsto> JInt 0, ''quantity'' \<mapsto> JInt 0,
                ''netamount'' \<mapsto> JStr [], ''foreignamount'' \<mapsto> JFloat 0)) = Inr r \<and>
     r ''rate'' = Some JNull \<and> r ''net_amount'' = Some JNull \<and> r ''foreign_amount'' = Some JNull \<and>
     r ''quantity'' = Some (JInt 0) \<and>
     transform_transaction no_conversion ((txn 1)(''transaction_total'' \<mapsto> JInt 0)) = Inr r' \<and>
     r' ''foreign_total'' = Some JNull \<and>
     transform_line_item no_conversion ((line 5)(''rate'' \<mapsto> JInt 0)) =
       transform_line_item no_conversion ((line 5)(''rate'' := None))"
proof -
  let ?li = "(line 5)(''rate'' \<mapsto> JInt 0, ''quantity'' \<mapsto> JInt 0,
                ''netamount'' \<mapsto> JStr [], ''foreignamount'' \<mapsto> JFloat 0)"
  let ?t = "(txn 1)(''transaction_total'' \<mapsto> JInt 0)"
  obtain r where r: "transform_line_item no_conversion ?li = Inr r"
    by (simp add: transform_line_item_def line_def py_index_def py_get_def int_or_zero_def
        float_or_none_def)
  obtain r' where r': "transform_transaction no_conversion ?t = Inr r'"
    by (simp add: transform_transaction_def txn_def py_index_def py_get_def float_or_none_def)
  note th = truthiness_decides_coercion[where b = no_conversion and r = r and t = "?t" and r' = r']
  have a: "r ''rate'' = Some JNull \<and> r ''quantity'' = Some (JInt 0)"
    using th[where li = "?li" and v = "JInt 0"] r by simp
  have b: "r ''net_amount'' = Some JNull"
    using th[where li = "?li" and v = "JStr []"] r by simp
  have c: "r ''foreign_amount'' = Some JNull"
    using th[where li = "?li" and v = "JFloat 0"] r by simp
  have d: "r' ''foreign_total'' = Some JNull"
    using th[where li = "?li" and v = "JInt 0"] r' by simp
  have e: "transform_line_item no_conversion ((line 5)(''rate'' \<mapsto> JInt 0)) =
       transform_line_item no_conversion ((line 5)(''rate'' := None))"
    using th[where li = "line 5" and v = "JInt 0"] by simp
  show ?thesis using r r' a b c d e by blast
qed


section \<open>The watermark cursor\<close>

lemma watermark_iteration_cursor:
  assumes rc: "respects_cursor (fetch ph) key (limit ph)"
    and cur: "cursor st = JInt c"
    and it: "watermark_iteration key ph st = Inr (fl, st')"
  shows "\<exists>c'. cursor st' = JInt c' \<and> c \<le> c' \<and>
           request_cursors (trace st') = request_cursors (trace st) @ [JInt c] \<and>
           (fl = Continue \<longrightarrow> c < c') \<and>
           (\<forall>resp items. fetch ph (batch_num st + 1) (JInt c) (limit ph) = Some resp \<and>
               status_code resp = 200 \<and> json_items resp = Some items \<and> items \<noteq> [] \<longrightarrow> c < c')"
proof (cases "fetch ph (batch_num st + 1) (cursor st) (limit ph)")
  case None
  then show ?thesis using it cur by (auto simp: watermark_iteration_def Let_def)
next
  case (Some resp)
  show ?thesis
  proof (cases "status_code resp = 200")
    case False
    then show ?thesis using it cur Some by (auto simp: watermark_iteration_def Let_def)
  next
    case ok: True
    show ?thesis
    proof (cases "json_items resp")
      case None
      then show ?thesis using it Some ok by (simp add: watermark_iteration_def Let_def)
    next
      case items: (Some items)
      show ?thesis
      proof (cases "items = []")
        case True
        then show ?thesis using it cur Some ok items by (auto simp: watermark_iteration_def Let_def)
      next
        case ne: False
        have rows: "\<forall>r \<in> set items. \<exists>i. r key = Some (JInt i) \<and> c < i"
          using rc Some items cur unfolding respects_cursor_def by metis
        then have ints: "\<forall>t \<in> set items. \<exists>i. t key = Some (JInt i)" by blast
        let ?M = "Max (int_id key ` set items)"
        have mk: "max_key key items = Inr (JInt ?M)" using ne ints by (rule max_key_int)
        have "?M \<in> int_id key ` set items" using ne by (intro Max_in) auto
        then obtain r where r: "r \<in> set items" "?M = int_id key r" by auto
        obtain i where i: "r key = Some (JInt i)" "c < i" using rows r(1) by blast
        have cM: "c < ?M" using r(2) i by (simp add: int_id_def)
        obtain records tot evs where rec: "emap (transform ph) items = Inr records"
          and w: "write_batch ph (batch_num st + 1) (total st) records = Inr (tot, evs)"
          using it Some ok items ne mk
          by (auto simp: watermark_iteration_def Let_def ebind_Inr_iff)
        note ev = write_batch_events[OF w]
        have res: "Inr (fl, st') = 
           Inr (if length items < limit ph
              then (Break, \<lparr>cursor = JInt ?M, batch_num = batch_num st + 1, total = tot,
                     trace = trace st @ [Request (cursor st) (limit ph) (Some resp)] @ evs @
                             [Print (Last_batch (length items))]\<rparr>)
              else (Continue, \<lparr>cursor = JInt ?M, batch_num = batch_num st + 1, total = tot,
                     trace = trace st @ [Request (cursor st) (limit ph) (Some resp)] @ evs @
                             [Sleep_ms 300]\<rparr>))"
          using watermark_iteration_page[OF Some ok items ne mk rec w] it by simp
        show ?thesis using res cM ev cur by (auto split: if_splits)
      qed
    qed
  qed
qed

lemma watermark_loop_cursors:
  assumes rc: "respects_cursor (fetch ph) key (limit ph)"
    and run: "while_true fuel (watermark_iteration key ph) st = Some (Inr st')"
    and cur: "cursor st = JInt c"
    and tr: "request_cursors (trace st) = map JInt cs"
    and srt: "sorted_wrt (<) cs" and below: "\<forall>x \<in> set cs. x < c"
  shows "\<exists>c' cs'. cursor st' = JInt c' \<and> request_cursors (trace st') = map JInt cs' \<and>
           sorted_wrt (<) cs' \<and> (\<forall>x \<in> set cs'. x \<le> c') \<and> c \<le> c'"
  using run cur tr srt below
proof (induction fuel arbitrary: st c cs)
  case 0
  then show ?case by simp
next
  case (Suc k)
  show ?case
  proof (cases "watermark_iteration key ph st")
    case (Inl e)
    then show ?thesis using Suc.prems(1) by simp
  next
    case (Inr p)
    obtain fl s1 where p: "p = (fl, s1)" by (cases p)
    have it: "watermark_iteration key ph st = Inr (fl, s1)" using Inr p by simp
    obtain c1 where c1: "cursor s1 = JInt c1" "c \<le> c1"
        "request_cursors (trace s1) = request_cursors (trace st) @ [JInt c]"
        "fl = Continue \<longrightarrow> c < c1"
      using watermark_iteration_cursor[OF rc Suc.prems(2) it] by blast
    have tr1: "request_cursors (trace s1) = map JInt (cs @ [c])"
      using c1(3) Suc.prems(3) by simp
    have srt1: "sorted_wrt (<) (cs @ [c])"
      using Suc.prems(4,5) by (simp add: sorted_wrt_append)
    show ?thesis
    proof (cases fl)
      case Break
      then have "st' = s1" using Suc.prems(1) it by simp
      moreover have "\<forall>x \<in> set (cs @ [c]). x \<le> c1" using Suc.prems(5) c1(2) by auto
      ultimately show ?thesis using c1(1,2) tr1 srt1 by blast
    next
      case Continue
      then have run1: "while_true k (watermark_iteration key ph) s1 = Some (Inr st')"
        using Suc.prems(1) it by simp
      have lt: "c < c1" using c1(4) Continue by simp
      have below1: "\<forall>x \<in> set (cs @ [c]). x < c1" using Suc.prems(5) lt by auto
      obtain c' cs' where r: "cursor st' = JInt c'" "request_cursors (trace st') = map JInt cs'"
          "sorted_wrt (<) cs'" "\<forall>x \<in> set cs'. x \<le> c'" "c1 \<le> c'"
        using Suc.IH[OF run1 c1(1) tr1 srt1 below1] by blast
      have "c \<le> c'" using r(5) c1(2) by simp
      then show ?thesis using r by blast
    qed
  qed
qed

lemma run_query_above: "\<forall>r \<in> set (run_query key tbl c psize). c < int_id key r"
proof
  fix r assume "r \<in> set (run_query key tbl c psize)"
  then have "r \<in> set (sort_key (int_id key) (filter (\<lambda>r. c < int_id key r) tbl))"
    unfolding run_query_def using set_take_subset by fast
  then show "c < int_id key r" by simp
qed

lemma table_source_respects:
  assumes "\<forall>r \<in> set tbl. is_pos_int (r key)"
  shows "respects_cursor (table_source key tbl) key psize"
  unfolding respects_cursor_def
proof (intro allI impI ballI)
  fix n c resp items r
  assume a: "table_source key tbl n (JInt c) psize = Some resp \<and> json_items resp = Some items"
    and r: "r \<in> set items"
  have items: "items = run_query key tbl c psize" using a by (auto simp: table_source_def)
  have c: "c < int_id key r" using r items run_query_above[of key tbl c psize] by blast
  have "r \<in> set (take psize (sort_key (int_id key) (filter (\<lambda>r. c < int_id key r) tbl)))"
    using r items by (simp add: run_query_def)
  then have "r \<in> set (sort_key (int_id key) (filter (\<lambda>r. c < int_id key r) tbl))"
    by (rule in_set_takeD)
  then have m: "r \<in> set tbl" by simp
  obtain i where "r key = Some (JInt i)" using assms m by (auto simp: is_pos_int_iff)
  then show "\<exists>i. r key = Some (JInt i) \<and> c < i" using c by (simp add: int_id_def)
qed

text \<open>
  Claim C4. Assume that every row the source returns for a query carries an integer id
  that satisfies the predicate \<^verbatim>\<open>id > last_id\<close> of that query. Then in every run of
  \<^verbatim>\<open>sync_transactions\<close> the cursors of the queries issued, in order, are strictly increasing
  and none exceeds the final cursor; in every iteration the cursor does not decrease, and
  it increases strictly when the page is not empty (before every continuation in
  particular). Without the assumption the new cursor is the maximum of the page whatever
  the old one was. The query's lower bound is exclusive: no row it selects has the id of
  the cursor.
\<close>

theorem watermark_cursor_monotone:
  assumes "respects_cursor (ns_transactions w) ''transaction_id'' psize"
  shows
    "(sync_transactions w psize fuel = Some (Inr st) \<longrightarrow>
        (\<exists>c cs. cursor st = JInt c \<and> request_cursors (trace st) = map JInt cs \<and>
                sorted_wrt (<) cs \<and> (\<forall>x \<in> set cs. x \<le> c))) \<and>
     (cursor s = JInt c \<and>
      watermark_iteration ''transaction_id'' (transactions_h1 w psize) s = Inr (fl, s') \<longrightarrow>
        (\<exists>c'. cursor s' = JInt c' \<and> c \<le> c' \<and> (fl = Continue \<longrightarrow> c < c') \<and>
              (\<forall>resp items. ns_transactions w (batch_num s + 1) (JInt c) psize = Some resp \<and>
                  status_code resp = 200 \<and> json_items resp = Some items \<and> items \<noteq> [] \<longrightarrow> c < c'))) \<and>
     (\<forall>r \<in> set (run_query ''transaction_id'' tbl c psize). int_id ''transaction_id'' r \<noteq> c)"
proof -
  let ?ph = "transactions_h1 w psize"
  have rc: "respects_cursor (fetch ?ph) ''transaction_id'' (limit ?ph)"
    using assms by (simp add: transactions_h1_def)
  have f: "fetch ?ph = ns_transactions w" "limit ?ph = psize" by (simp_all add: transactions_h1_def)
  have 1: "sync_transactions w psize fuel = Some (Inr st) \<longrightarrow>
        (\<exists>c cs. cursor st = JInt c \<and> request_cursors (trace st) = map JInt cs \<and>
                sorted_wrt (<) cs \<and> (\<forall>x \<in> set cs. x \<le> c))"
  proof
    assume "sync_transactions w psize fuel = Some (Inr st)"
    then have run: "while_true fuel (watermark_iteration ''transaction_id'' ?ph) (start (JInt 0)) = Some (Inr st)"
      by (simp add: sync_transactions_def)
    have "\<exists>c' cs'. cursor st = JInt c' \<and> request_cursors (trace st) = map JInt cs' \<and>
           sorted_wrt (<) cs' \<and> (\<forall>x \<in> set cs'. x \<le> c') \<and> 0 \<le> c'"
      by (rule watermark_loop_cursors[OF rc run, of 0 "[]"]) (simp_all add: start_def)
    then show "\<exists>c cs. cursor st = JInt c \<and> request_cursors (trace st) = map JInt cs \<and>
                sorted_wrt (<) cs \<and> (\<forall>x \<in> set cs. x \<le> c)" by blast
  qed
  have 2: "cursor s = JInt c \<and>
      watermark_iteration ''transaction_id'' ?ph s = Inr (fl, s') \<longrightarrow>
        (\<exists>c'. cursor s' = JInt c' \<and> c \<le> c' \<and> (fl = Continue \<longrightarrow> c < c') \<and>
              (\<forall>resp items. ns_transactions w (batch_num s + 1) (JInt c) psize = Some resp \<and>
                  status_code resp = 200 \<and> json_items resp = Some items \<and> items \<noteq> [] \<longrightarrow> c < c'))"
  proof
    assume a: "cursor s = JInt c \<and> watermark_iteration ''transaction_id'' ?ph s = Inr (fl, s')"
    show "\<exists>c'. cursor s' = JInt c' \<and> c \<le> c' \<and> (fl = Continue \<longrightarrow> c < c') \<and>
              (\<forall>resp items. ns_transactions w (batch_num s + 1) (JInt c) psize = Some resp \<and>
                  status_code resp = 200 \<and> json_items resp = Some items \<and> items \<noteq> [] \<longrightarrow> c < c')"
      using watermark_iteration_cursor[OF rc conjunct1[OF a] conjunct2[OF a]] unfolding f by blast
  qed
  have 3: "\<forall>r \<in> set (run_query ''transaction_id'' tbl c psize). int_id ''transaction_id'' r \<noteq> c"
    using run_query_above[of "''transaction_id''" tbl c psize] by auto
  show ?thesis using 1 2 3 by blast
qed

text \<open>
  The theorem at a table of three transactions read in pages of two: two queries, at
  increasing cursors; the query after cursor 2 selects the row with id 3.
\<close>

theorem watermark_cursor_monotone_witness:
  "\<exists>st c cs. sync_transactions (h1_world [txn 3, txn 1, txn 2] []) 2 5 = Some (Inr st) \<and>
      cursor st = JInt c \<and> request_cursors (trace st) = map JInt cs \<and> sorted_wrt (<) cs \<and>
      length cs = 2 \<and>
      int_id ''transaction_id'' (txn 3) \<noteq> 2 \<and> txn 3 \<in> set (run_query ''transaction_id'' [txn 3, txn 1, txn 2] 2 2)"
proof -
  let ?tbl = "[txn 3, txn 1, txn 2]"
  let ?w = "h1_world ?tbl []"
  have rc: "respects_cursor (ns_transactions ?w) ''transaction_id'' 2"
    by (simp add: table_source_respects txn_def)
  obtain st where st: "sync_transactions ?w 2 5 = Some (Inr st)"
      "length (request_cursors (trace st)) = length ?tbl div 2 + 1"
    using sync_transactions_complete[of 2 ?tbl ?w 5]
    by (auto simp: good_txn table_source_answers h1_world_writes)
  note th = watermark_cursor_monotone[OF rc, of 5 st _ 2 _ _ ?tbl]
  obtain c cs where c: "cursor st = JInt c" "request_cursors (trace st) = map JInt cs" "sorted_wrt (<) cs"
    using th st(1) by blast
  have len: "length cs = 2" using st(2) c(2) by simp
  have q: "txn 3 \<in> set (run_query ''transaction_id'' ?tbl 2 2)"
    by (simp add: run_query_def)
  have "int_id ''transaction_id'' (txn 3) \<noteq> 2" using th q by blast
  then show ?thesis using st(1) c len q by blast
qed


section \<open>Offset mode\<close>

lemma offset_iteration_trace:
  assumes "offset_iteration ph st = Inr (fl, st')"
  shows "batch_num st' = batch_num st + 1 \<and>
         request_cursors (trace st') = request_cursors (trace st) @ [cursor st] \<and>
         (fl = Continue \<longrightarrow> cursor st' = cursor st + limit ph) \<and>
         (fl = Break \<longrightarrow> cursor st' = cursor st)"
proof (cases "fetch ph (batch_num st + 1) (cursor st) (limit ph)")
  case None
  then show ?thesis using assms by (auto simp: offset_iteration_def Let_def)
next
  case (Some resp)
  show ?thesis
  proof (cases "status_code resp = 200")
    case False
    then show ?thesis using assms Some by (auto simp: offset_iteration_def Let_def)
  next
    case ok: True
    show ?thesis
    proof (cases "json_items resp")
      case None
      then show ?thesis using assms Some ok by (simp add: offset_iteration_def Let_def)
    next
      case items: (Some items)
      show ?thesis
      proof (cases "items = []")
        case True
        then show ?thesis using assms Some ok items by (auto simp: offset_iteration_def Let_def)
      next
        case ne: False
        obtain records tot evs where rec: "emap (transform ph) items = Inr records"
          and w: "write_batch ph (batch_num st + 1) (total st) records = Inr (tot, evs)"
          using assms Some ok items ne
          by (auto simp: offset_iteration_def Let_def ebind_Inr_iff)
        note ev = write_batch_events[OF w]
        show ?thesis using assms Some ok items ne rec w ev
          by (auto simp: offset_iteration_def Let_def split: if_splits)
      qed
    qed
  qed
qed

lemma offset_iteration_step:
  assumes f: "fetch ph (batch_num st + 1) (cursor st) (limit ph) = Some resp"
    and ok: "status_code resp = 200" and items: "json_items resp = Some items"
    and it: "offset_iteration ph st = Inr (fl, st')"
  shows "(fl = Break \<longleftrightarrow> items = [] \<or> length items < limit ph) \<and>
         (fl = Continue \<longrightarrow> cursor st' = cursor st + limit ph) \<and>
         (\<exists>evs. trace st' = trace st @ Request (cursor st) (limit ph) (Some resp) # evs \<and>
                request_cursors evs = [] \<and>
                (items = [] \<longrightarrow> upserts evs = []) \<and>
                (items \<noteq> [] \<longrightarrow> (\<exists>records. emap (transform ph) items = Inr records \<and>
                                              upserts evs = [records])))"
proof (cases "items = []")
  case True
  then show ?thesis using f ok items it by (auto simp: offset_iteration_def Let_def)
next
  case ne: False
  obtain records tot evs where rec: "emap (transform ph) items = Inr records"
    and w: "write_batch ph (batch_num st + 1) (total st) records = Inr (tot, evs)"
    using it f ok items ne
    by (auto simp: offset_iteration_def Let_def ebind_Inr_iff)
  note ev = write_batch_events[OF w]
  show ?thesis
  proof (cases "length items < limit ph")
    case True
    then have "fl = Break" "trace st' = trace st @ Request (cursor st) (limit ph) (Some resp) # evs"
      using it f ok items ne rec w by (auto simp: offset_iteration_def Let_def)
    then show ?thesis using True ne rec ev by auto
  next
    case False
    then have "fl = Continue" "cursor st' = cursor st + limit ph"
        "trace st' = trace st @ Request (cursor st) (limit ph) (Some resp) # (evs @ [Sleep_ms 300])"
      using it f ok items ne rec w by (auto simp: offset_iteration_def Let_def)
    then show ?thesis using False ne rec ev by auto
  qed
qed

lemma offset_loop_offsets:
  assumes "while_true fuel (offset_iteration ph) st = Some (Inr st')"
    and "cursor st = batch_num st * limit ph"
    and "request_cursors (trace st) = map (\<lambda>i. i * limit ph) [0..<batch_num st]"
  shows "request_cursors (trace st') = map (\<lambda>i. i * limit ph) [0..<batch_num st']"
  using assms
proof (induction fuel arbitrary: st)
  case 0
  then show ?case by simp
next
  case (Suc k)
  show ?case
  proof (cases "offset_iteration ph st")
    case (Inl e)
    then show ?thesis using Suc.prems(1) by simp
  next
    case (Inr p)
    obtain fl s1 where p: "p = (fl, s1)" by (cases p)
    have it: "offset_iteration ph st = Inr (fl, s1)" using Inr p by simp
    note tr = offset_iteration_trace[OF it]
    have tr1: "request_cursors (trace s1) = map (\<lambda>i. i * limit ph) [0..<batch_num s1]"
      using tr Suc.prems(2,3) by simp
    show ?thesis
    proof (cases fl)
      case Break
      then have "st' = s1" using Suc.prems(1) it by simp
      then show ?thesis using tr1 by simp
    next
      case Continue
      then have run1: "while_true k (offset_iteration ph) s1 = Some (Inr st')"
        using Suc.prems(1) it by simp
      have c1: "cursor s1 = batch_num s1 * limit ph" using tr Continue Suc.prems(2) by simp
      show ?thesis using Suc.IH[OF run1 c1 tr1] .
    qed
  qed
qed

lemma streaming_results:
  assumes "sync_transactions_streaming w psize fuel = Some (Inr (txns, lines))"
  shows "while_true fuel (offset_iteration (transactions_v2 w psize)) (start 0) = Some (Inr txns) \<and>
         while_true fuel (offset_iteration (line_items_v2 w psize)) (start 0) = Some (Inr lines)"
  using assms
  by (auto simp: sync_transactions_streaming_def split: option.splits sum.splits)

lemma customers_iteration_page:
  assumes "ns_customers (calls cs + 1) (offset cs) psize = Some resp"
    and "status_code resp = 200" and "json_items resp = Some items"
  shows "\<exists>fl cs'. customers_iteration ns_customers psize cs = Inr (fl, cs') \<and>
           (fl = Break \<longleftrightarrow> items = [] \<or> length items < psize) \<and>
           (fl = Continue \<longrightarrow> offset cs' = offset cs + psize) \<and>
           all_customers cs' = all_customers cs @ items \<and>
           request_cursors (printed cs') = request_cursors (printed cs) @ [offset cs]"
  using assms by (auto simp: customers_iteration_def Let_def)

lemma v2_world_sel [simp]:
  "py (v2_world a b c) = no_conversion" "supabase_url (v2_world a b c) = ''https://sb''"
  "ns_transactions (v2_world a b c) = a" "ns_line_items (v2_world a b c) = b"
  "sb_http (v2_world a b c) = c"
  by (simp_all add: v2_world_def)

lemma transform_txn [simp]: "transform_transaction no_conversion (txn i) = Inr (txn_record i)"
  by (simp add: transform_transaction_def txn_def txn_record_def py_index_def py_get_def
      float_or_none_def)

lemma transform_line [simp]: "transform_line_item no_conversion (line i) = Inr (line_record i)"
  by (simp add: transform_line_item_def line_def line_record_def py_index_def py_get_def
      py_get_default_def float_or_none_def int_or_zero_def)

lemmas run_defs =
  offset_iteration_def transactions_v2_def line_items_v2_def offset_source_def start_def Let_def
  write_batch_def post_plain accepting_def rejecting_def report_transactions_v2_def
  report_line_items_v2_def date_range_def py_get_def py_min_def py_max_def txn_record_def
  line_record_def

text \<open>
  Claim C5. In an iteration of an offset loop of \<^verbatim>\<open>sync_transactions_streaming\<close> whose
  query is answered with status 200 and a list of rows, and which does not raise: the query
  issued is the one at the current offset with the page size; the loop ends with this
  iteration exactly when the page is empty or shorter than the page size; otherwise the
  offset grows by exactly the page size; an empty page is not written, and a page that is
  not empty, the short last page included, is transformed and written as one batch. Over a
  whole run the offsets queried are 0, P, 2P, ... in this order. The fetch loop of
  \<^verbatim>\<open>sync_customers\<close> takes the same steps and appends every page to the rows collected.
\<close>

theorem offset_pagination_steps:
  "(fetch ph (batch_num st + 1) (cursor st) (limit ph) = Some resp \<and> status_code resp = 200 \<and>
    json_items resp = Some items \<and> offset_iteration ph st = Inr (fl, st') \<longrightarrow>
      (fl = Break \<longleftrightarrow> items = [] \<or> length items < limit ph) \<and>
      (fl = Continue \<longrightarrow> cursor st' = cursor st + limit ph) \<and>
      (\<exists>evs. trace st' = trace st @ Request (cursor st) (limit ph) (Some resp) # evs \<and>
             request_cursors evs = [] \<and>
             (items = [] \<longrightarrow> upserts evs = []) \<and>
             (items \<noteq> [] \<longrightarrow> (\<exists>records. emap (transform ph) items = Inr records \<and>
                                           upserts evs = [records])))) \<and>
   (sync_transactions_streaming w psize fuel = Some (Inr (txns, lines)) \<longrightarrow>
      request_cursors (trace txns) = map (\<lambda>i. i * psize) [0..<batch_num txns] \<and>
      request_cursors (trace lines) = map (\<lambda>i. i * psize) [0..<batch_num lines]) \<and>
   (ns_customers (calls cs + 1) (offset cs) psize = Some resp' \<and> status_code resp' = 200 \<and>
    json_items resp' = Some items' \<longrightarrow>
      (\<exists>fl' cs'. customers_iteration ns_customers psize cs = Inr (fl', cs') \<and>
           (fl' = Break \<longleftrightarrow> items' = [] \<or> length items' < psize) \<and>
           (fl' = Continue \<longrightarrow> offset cs' = offset cs + psize) \<and>
           all_customers cs' = all_customers cs @ items' \<and>
           request_cursors (printed cs') = request_cursors (printed cs) @ [offset cs]))"
proof (intro conjI impI)
  assume "sync_transactions_streaming w psize fuel = Some (Inr (txns, lines))"
  note r = streaming_results[OF this]
  have "request_cursors (trace txns) =
        map (\<lambda>i. i * limit (transactions_v2 w psize)) [0..<batch_num txns]"
    by (rule offset_loop_offsets[OF conjunct1[OF r]]) (simp_all add: start_def)
  then show "request_cursors (trace txns) = map (\<lambda>i. i * psize) [0..<batch_num txns]"
    by (simp add: transactions_v2_def)
  have "request_cursors (trace lines) =
        map (\<lambda>i. i * limit (line_items_v2 w psize)) [0..<batch_num lines]"
    by (rule offset_loop_offsets[OF conjunct2[OF r]]) (simp_all add: start_def)
  then show "request_cursors (trace lines) = map (\<lambda>i. i * psize) [0..<batch_num lines]"
    by (simp add: line_items_v2_def)
next
  assume "ns_customers (calls cs + 1) (offset cs) psize = Some resp' \<and> status_code resp' = 200 \<and>
    json_items resp' = Some items'"
  then show "\<exists>fl' cs'. customers_iteration ns_customers psize cs = Inr (fl', cs') \<and>
           (fl' = Break \<longleftrightarrow> items' = [] \<or> length items' < psize) \<and>
           (fl' = Continue \<longrightarrow> offset cs' = offset cs + psize) \<and>
           all_customers cs' = all_customers cs @ items' \<and>
           request_cursors (printed cs') = request_cursors (printed cs) @ [offset cs]"
    using customers_iteration_page by blast
next
  assume a: "fetch ph (batch_num st + 1) (cursor st) (limit ph) = Some resp \<and> status_code resp = 200 \<and>
    json_items resp = Some items \<and> offset_iteration ph st = Inr (fl, st')"
  then have s: "(fl = Break \<longleftrightarrow> items = [] \<or> length items < limit ph) \<and>
         (fl = Continue \<longrightarrow> cursor st' = cursor st + limit ph) \<and>
         (\<exists>evs. trace st' = trace st @ Request (cursor st) (limit ph) (Some resp) # evs \<and>
                request_cursors evs = [] \<and>
                (items = [] \<longrightarrow> upserts evs = []) \<and>
                (items \<noteq> [] \<longrightarrow> (\<exists>records. emap (transform ph) items = Inr records \<and>
                                              upserts evs = [records])))"
    using offset_iteration_step by blast
  show "fl = Break \<longleftrightarrow> items = [] \<or> length items < limit ph" using s by blast
  show "cursor st' = cursor st + limit ph" if "fl = Continue" using s that by blast
  show "\<exists>evs. trace st' = trace st @ Request (cursor st) (limit ph) (Some resp) # evs \<and>
             request_cursors evs = [] \<and>
             (items = [] \<longrightarrow> upserts evs = []) \<and>
             (items \<noteq> [] \<longrightarrow> (\<exists>records. emap (transform ph) items = Inr records \<and>
                                           upserts evs = [records]))" using s by blast
qed

text \<open>
  The theorem at three transactions and one line item read in pages of two, and at one
  customer: the first page is full, so the loop continues at offset 2; the run queries
  the offsets 0 and 2; the short page of customers is collected and ends the loop.
\<close>

theorem offset_pagination_steps_witness:
  "\<exists>st' txns lines cs'.
     offset_iteration (transactions_v2 (v2_world (offset_source [txn 1, txn 2, txn 3])
         (offset_source [line 1]) accepting) 2) (start 0) = Inr (Continue, st') \<and>
     cursor st' = 2 \<and> length (upserts (trace st')) = 1 \<and>
     sync_transactions_streaming (v2_world (offset_source [txn 1, txn 2, txn 3])
         (offset_source [line 1]) accepting) 2 5 = Some (Inr (txns, lines)) \<and>
     request_cursors (trace txns) = [0, 2] \<and> request_cursors (trace lines) = [0] \<and>
     customers_iteration (offset_source [txn 1]) 2
         \<lparr>offset = 0, all_customers = [], calls = 0, printed = []\<rparr> = Inr (Break, cs') \<and>
     all_customers cs' = [txn 1]"
proof -
  let ?w = "v2_world (offset_source [txn 1, txn 2, txn 3]) (offset_source [line 1]) accepting"
  let ?ph = "transactions_v2 ?w 2"
  let ?resp = "\<lparr>status_code = 200, body_text = [], json_items = Some [txn 1, txn 2]\<rparr>"
  let ?c0 = "\<lparr>offset = 0, all_customers = [], calls = 0, printed = []\<rparr>"
  let ?resp' = "\<lparr>status_code = 200, body_text = [], json_items = Some [txn 1]\<rparr>"
  obtain fl st' where it: "offset_iteration ?ph (start 0) = Inr (fl, st')"
    by (simp add: run_defs)
  have f: "fetch ?ph (batch_num (start 0) + 1) (cursor (start 0)) (limit ?ph) = Some ?resp \<and>
           status_code ?resp = 200 \<and> json_items ?resp = Some [txn 1, txn 2] \<and>
           offset_iteration ?ph (start 0) = Inr (fl, st')"
    using it by (simp add: transactions_v2_def offset_source_def start_def)
  obtain txns lines where run: "sync_transactions_streaming ?w 2 5 = Some (Inr (txns, lines))"
      "batch_num txns = 2" "batch_num lines = 1"
    by (simp add: sync_transactions_streaming_def eval_nat_numeral run_defs)
  have g: "offset_source [txn 1] (calls ?c0 + 1) (offset ?c0) 2 = Some ?resp' \<and>
           status_code ?resp' = 200 \<and> json_items ?resp' = Some [txn 1]"
    by (simp add: offset_source_def)
  note th = offset_pagination_steps[where ph = ?ph and st = "start 0" and resp = ?resp
      and items = "[txn 1, txn 2]" and fl = fl and st' = st' and w = ?w and psize = 2 and fuel = 5
      and txns = txns and lines = lines and ns_customers = "offset_source [txn 1]" and cs = ?c0
      and resp' = ?resp' and items' = "[txn 1]"]
  note th1 = th[THEN conjunct1, rule_format, OF f]
  have lim: "limit ?ph = 2" by (simp add: transactions_v2_def)
  have "fl \<noteq> Break" using th1 by (simp add: lim)
  then have 1: "fl = Continue" by (cases fl) simp_all
  have 2: "cursor st' = 2" using th1 1 by (simp add: lim start_def)
  have 3: "length (upserts (trace st')) = 1" using th1 by (auto simp: start_def)
  have 4: "request_cursors (trace txns) = [0, 2] \<and> request_cursors (trace lines) = [0]"
    using th[THEN conjunct2, THEN conjunct1, rule_format, OF run(1)] run(2,3) by (simp add: upt_rec)
  obtain fl' cs' where 5: "customers_iteration (offset_source [txn 1]) 2 ?c0 = Inr (fl', cs')"
      "fl' = Break \<longleftrightarrow> [txn 1] = [] \<or> length [txn 1] < (2::nat)"
      "all_customers cs' = all_customers ?c0 @ [txn 1]"
    using th[THEN conjunct2, THEN conjunct2, rule_format, OF g] by blast
  have 6: "fl' = Break" using 5(2) by simp
  show ?thesis using it 1 2 3 run(1) 4 5(1,3) 6 by auto
qed


section \<open>A write that the destination rejects\<close>

lemma write_batch_rejected:
  assumes "post ph n records = Inr sbr" "status_code sbr \<notin> {200, 201, 204}"
  shows "write_batch ph n tot records =
           Inr (tot, [Upsert (table ph) records, Print (Batch_error n (take 100 (body_text sbr)))])"
  using assms by (simp add: write_batch_def)

lemma max_key_two: "max_key ''transaction_id'' [txn 1, txn 2] = Inr (JInt 2)"
  by (simp add: max_key_def py_index_def txn_def)

text \<open>
  Claim C7. When the destination answers the write of a batch with a status outside
  200, 201 and 204, \<^verbatim>\<open>supabase_request\<close> returns that response and raises nothing; the
  iteration (of the offset loops of \<^verbatim>\<open>sync_transactions_streaming\<close> and of the watermark
  loops of sync-netsuite-h1-2025.py alike) writes the batch once, prints the error line,
  leaves the running total as it was, and goes on as after a successful write: after a
  full page it pauses and continues with the advanced cursor, after a short page the loop
  ends.
\<close>

theorem write_failure_continues:
  "(fetch ph (batch_num st + 1) (cursor st) (limit ph) = Some resp \<and> status_code resp = 200 \<and>
    json_items resp = Some items \<and> items \<noteq> [] \<and> emap (transform ph) items = Inr records \<and>
    post ph (batch_num st + 1) records = Inr sbr \<and> status_code sbr \<notin> {200, 201, 204} \<longrightarrow>
      offset_iteration ph st =
        Inr (if length items < limit ph
             then (Break, \<lparr>cursor = cursor st, batch_num = batch_num st + 1, total = total st,
                    trace = trace st @ [Request (cursor st) (limit ph) (Some resp),
                      Upsert (table ph) records,
                      Print (Batch_error (batch_num st + 1) (take 100 (body_text sbr)))]\<rparr>)
             else (Continue, \<lparr>cursor = cursor st + limit ph, batch_num = batch_num st + 1,
                    total = total st,
                    trace = trace st @ [Request (cursor st) (limit ph) (Some resp),
                      Upsert (table ph) records,
                      Print (Batch_error (batch_num st + 1) (take 100 (body_text sbr))),
                      Sleep_ms 300]\<rparr>))) \<and>
   (fetch wph (batch_num wst + 1) (cursor wst) (limit wph) = Some resp \<and> status_code resp = 200 \<and>
    json_items resp = Some items \<and> items \<noteq> [] \<and> max_key key items = Inr last_id \<and>
    emap (transform wph) items = Inr records \<and>
    post wph (batch_num wst + 1) records = Inr sbr \<and> status_code sbr \<notin> {200, 201, 204} \<longrightarrow>
      watermark_iteration key wph wst =
        Inr (if length items < limit wph
             then (Break, \<lparr>cursor = last_id, batch_num = batch_num wst + 1, total = total wst,
                    trace = trace wst @ [Request (cursor wst) (limit wph) (Some resp),
                      Upsert (table wph) records,
                      Print (Batch_error (batch_num wst + 1) (take 100 (body_text sbr))),
                      Print (Last_batch (length items))]\<rparr>)
             else (Continue, \<lparr>cursor = last_id, batch_num = batch_num wst + 1, total = total wst,
                    trace = trace wst @ [Request (cursor wst) (limit wph) (Some resp),
                      Upsert (table wph) records,
                      Print (Batch_error (batch_num wst + 1) (take 100 (body_text sbr))),
                      Sleep_ms 300]\<rparr>))) \<and>
   (http \<lparr>sb_method = ''POST'', sb_url = url @ ''/rest/v1/'' @ endpoint,
          sb_prefer = ''resolution=merge-duplicates,return=minimal'', sb_data = data\<rparr> = Inr sbr \<longrightarrow>
      supabase_request http url endpoint ''POST'' data = Inr sbr)"
proof (intro conjI impI)
  assume a: "fetch ph (batch_num st + 1) (cursor st) (limit ph) = Some resp \<and> status_code resp = 200 \<and>
    json_items resp = Some items \<and> items \<noteq> [] \<and> emap (transform ph) items = Inr records \<and>
    post ph (batch_num st + 1) records = Inr sbr \<and> status_code sbr \<notin> {200, 201, 204}"
  then have w: "write_batch ph (batch_num st + 1) (total st) records =
      Inr (total st, [Upsert (table ph) records,
             Print (Batch_error (batch_num st + 1) (take 100 (body_text sbr)))])"
    by (intro write_batch_rejected) simp_all
  show "offset_iteration ph st =
        Inr (if length items < limit ph
             then (Break, \<lparr>cursor = cursor st, batch_num = batch_num st + 1, total = total st,
                    trace = trace st @ [Request (cursor st) (limit ph) (Some resp),
                      Upsert (table ph) records,
                      Print (Batch_error (batch_num st + 1) (take 100 (body_text sbr)))]\<rparr>)
             else (Continue, \<lparr>cursor = cursor st + limit ph, batch_num = batch_num st + 1,
                    total = total st,
                    trace = trace st @ [Request (cursor st) (limit ph) (Some resp),
                      Upsert (table ph) records,
                      Print (Batch_error (batch_num st + 1) (take 100 (body_text sbr))),
                      Sleep_ms 300]\<rparr>))"
    using a w by (simp add: offset_iteration_def Let_def)
next
  assume a: "fetch wph (batch_num wst + 1) (cursor wst) (limit wph) = Some resp \<and> status_code resp = 200 \<and>
    json_items resp = Some items \<and> items \<noteq> [] \<and> max_key key items = Inr last_id \<and>
    emap (transform wph) items = Inr records \<and>
    post wph (batch_num wst + 1) records = Inr sbr \<and> status_code sbr \<notin> {200, 201, 204}"
  then have w: "write_batch wph (batch_num wst + 1) (total wst) records =
      Inr (total wst, [Upsert (table wph) records,
             Print (Batch_error (batch_num wst + 1) (take 100 (body_text sbr)))])"
    by (intro write_batch_rejected) simp_all
  show "watermark_iteration key wph wst =
        Inr (if length items < limit wph
             then (Break, \<lparr>cursor = last_id, batch_num = batch_num wst + 1, total = total wst,
                    trace = trace wst @ [Request (cursor wst) (limit wph) (Some resp),
                      Upsert (table wph) records,
                      Print (Batch_error (batch_num wst + 1) (take 100 (body_text sbr))),
                      Print (Last_batch (length items))]\<rparr>)
             else (Continue, \<lparr>cursor = last_id, batch_num = batch_num wst + 1, total = total wst,
                    trace = trace wst @ [Request (cursor wst) (limit wph) (Some resp),
                      Upsert (table wph) records,
                      Print (Batch_error (batch_num wst + 1) (take 100 (body_text sbr))),
                      Sleep_ms 300]\<rparr>))"
    using a w by (simp add: watermark_iteration_def Let_def)
next
  assume "http \<lparr>sb_method = ''POST'', sb_url = url @ ''/rest/v1/'' @ endpoint,
          sb_prefer = ''resolution=merge-duplicates,return=minimal'', sb_data = data\<rparr> = Inr sbr"
  then show "supabase_request http url endpoint ''POST'' data = Inr sbr"
    by (simp add: post_plain)
qed

text \<open>
  The theorem at a destination that answers 500 and a full first page of two
  transactions, in both scripts: one write, the error line, total 0, and the next
  iteration at offset 2 and after id 2.
\<close>

theorem write_failure_continues_witness:
  "offset_iteration (transactions_v2 (v2_world (offset_source [txn 1, txn 2, txn 3])
       (offset_source []) rejecting) 2) (start 0) =
     Inr (Continue, \<lparr>cursor = 2, batch_num = 1, total = 0,
       trace = [Request 0 2 (Some \<lparr>status_code = 200, body_text = [],
                                     json_items = Some [txn 1, txn 2]\<rparr>),
                Upsert ''ns_wholesale_transactions'' [txn_record 1, txn_record 2],
                Print (Batch_error 1 ''no''), Sleep_ms 300]\<rparr>) \<and>
   watermark_iteration ''transaction_id''
       (transactions_h1 ((h1_world [txn 1, txn 2, txn 3] [])\<lparr>sb_http := rejecting\<rparr>) 2)
       (start (JInt 0)) =
     Inr (Continue, \<lparr>cursor = JInt 2, batch_num = 1, total = 0,
       trace = [Request (JInt 0) 2 (Some \<lparr>status_code = 200, body_text = [],
                                     json_items = Some [txn 1, txn 2]\<rparr>),
                Upsert ''ns_wholesale_transactions'' [txn_record 1, txn_record 2],
                Print (Batch_error 1 ''no''), Sleep_ms 300]\<rparr>) \<and>
   supabase_request (rejecting 1) ''https://sb'' ''ns_wholesale_transactions'' ''POST''
       (Some [txn_record 1, txn_record 2]) =
     Inr \<lparr>status_code = 500, body_text = ''no'', json_items = None\<rparr>"
proof -
  let ?ph = "transactions_v2 (v2_world (offset_source [txn 1, txn 2, txn 3]) (offset_source []) rejecting) 2"
  let ?wph = "transactions_h1 ((h1_world [txn 1, txn 2, txn 3] [])\<lparr>sb_http := rejecting\<rparr>) 2"
  let ?resp = "\<lparr>status_code = 200, body_text = [], json_items = Some [txn 1, txn 2]\<rparr>"
  let ?sbr = "\<lparr>status_code = 500, body_text = ''no'', json_items = None\<rparr>"
  let ?recs = "[txn_record 1, txn_record 2]"
  note th = write_failure_continues[where ph = ?ph and st = "start 0" and resp = ?resp
      and items = "[txn 1, txn 2]" and records = ?recs and sbr = ?sbr
      and wph = ?wph and wst = "start (JInt 0)" and key = "''transaction_id''" and last_id = "JInt 2"
      and http = "rejecting 1" and url = "''https://sb''" and endpoint = "''ns_wholesale_transactions''"
      and data = "Some ?recs"]
  have a: "fetch ?ph (batch_num (start 0) + 1) (cursor (start 0)) (limit ?ph) = Some ?resp \<and>
      status_code ?resp = 200 \<and> json_items ?resp = Some [txn 1, txn 2] \<and> [txn 1, txn 2] \<noteq> [] \<and>
      emap (transform ?ph) [txn 1, txn 2] = Inr ?recs \<and>
      post ?ph (batch_num (start 0) + 1) ?recs = Inr ?sbr \<and> status_code ?sbr \<notin> {200, 201, 204}"
    by (simp add: transactions_v2_def offset_source_def start_def post_plain rejecting_def)
  have b: "fetch ?wph (batch_num (start (JInt 0)) + 1) (cursor (start (JInt 0))) (limit ?wph) = Some ?resp \<and>
      status_code ?resp = 200 \<and> json_items ?resp = Some [txn 1, txn 2] \<and> [txn 1, txn 2] \<noteq> [] \<and>
      max_key ''transaction_id'' [txn 1, txn 2] = Inr (JInt 2) \<and>
      emap (transform ?wph) [txn 1, txn 2] = Inr ?recs \<and>
      post ?wph (batch_num (start (JInt 0)) + 1) ?recs = Inr ?sbr \<and> status_code ?sbr \<notin> {200, 201, 204}"
    by (simp add: transactions_h1_def h1_world_def table_source_def run_query_def start_def
        post_on_conflict rejecting_def max_key_two)
  have c: "rejecting 1 \<lparr>sb_method = ''POST'', sb_url = ''https://sb'' @ ''/rest/v1/'' @ ''ns_wholesale_transactions'',
          sb_prefer = ''resolution=merge-duplicates,return=minimal'', sb_data = Some ?recs\<rparr> = Inr ?sbr"
    by (simp add: rejecting_def)
  have 1: "offset_iteration ?ph (start 0) =
     Inr (Continue, \<lparr>cursor = 2, batch_num = 1, total = 0,
       trace = [Request 0 2 (Some ?resp), Upsert ''ns_wholesale_transactions'' ?recs,
                Print (Batch_error 1 ''no''), Sleep_ms 300]\<rparr>)"
    using th[THEN conjunct1, rule_format, OF a]
    by (simp add: transactions_v2_def start_def)
  have 2: "watermark_iteration ''transaction_id'' ?wph (start (JInt 0)) =
     Inr (Continue, \<lparr>cursor = JInt 2, batch_num = 1, total = 0,
       trace = [Request (JInt 0) 2 (Some ?resp), Upsert ''ns_wholesale_transactions'' ?recs,
                Print (Batch_error 1 ''no''), Sleep_ms 300]\<rparr>)"
    using th[THEN conjunct2, THEN conjunct1, rule_format, OF b]
    by (simp add: transactions_h1_def start_def)
  have 3: "supabase_request (rejecting 1) ''https://sb'' ''ns_wholesale_transactions'' ''POST''
       (Some ?recs) = Inr ?sbr"
    using th[THEN conjunct2, THEN conjunct2, rule_format, OF c] .
  show ?thesis using 1 2 3 by blast
qed


section \<open>Failures while a phase runs\<close>

lemma streaming_first_raises:
  assumes "offset_iteration (transactions_v2 w psize) (start 0) = Inl e"
  shows "sync_transactions_streaming w psize (Suc fuel) = Some (Inl e)"
  using assms by (simp add: sync_transactions_streaming_def)

lemma bad_row_raises:
  "transform_transaction no_conversion ((txn 1)(''transaction_id'' := None)) =
     Inl (KeyError ''transaction_id'')"
  by (simp add: transform_transaction_def py_index_def txn_def)

text \<open>
  Claim C8, as the code has it. Two kinds of failure are handled inside a phase of
  \<^verbatim>\<open>sync_transactions_streaming\<close>: when the signed request gives up or returns a status
  other than 200, the iteration prints the fetch error and ends the loop, the totals
  unchanged; when the destination answers a write with a status outside 200, 201 and 204,
  the iteration prints the batch error, leaves the total unchanged and does not raise.
  The phase has no exception handler: a body that is not JSON, a row on which the
  transform raises, and a transport error of the destination call each raise out of the
  iteration, and an exception of the first loop leaves \<^verbatim>\<open>sync_transactions_streaming\<close>
  itself.
\<close>

theorem phase_failure_handling:
  "((fetch ph (batch_num st + 1) (cursor st) (limit ph) = None \<or>
     (\<exists>r. fetch ph (batch_num st + 1) (cursor st) (limit ph) = Some r \<and> status_code r \<noteq> 200)) \<longrightarrow>
      offset_iteration ph st =
        Inr (Break, st\<lparr>batch_num := batch_num st + 1,
               trace := trace st @
                 [Request (cursor st) (limit ph) (fetch ph (batch_num st + 1) (cursor st) (limit ph)),
                  Print (Fetch_error (cursor st)
                    (error_details (fetch ph (batch_num st + 1) (cursor st) (limit ph))))]\<rparr>)) \<and>
   (fetch ph (batch_num st + 1) (cursor st) (limit ph) = Some resp \<and> status_code resp = 200 \<and>
    json_items resp = Some items \<and> items \<noteq> [] \<and> emap (transform ph) items = Inr records \<and>
    post ph (batch_num st + 1) records = Inr sbr \<and> status_code sbr \<notin> {200, 201, 204} \<longrightarrow>
      (\<exists>fl st'. offset_iteration ph st = Inr (fl, st') \<and> total st' = total st \<and>
         Print (Batch_error (batch_num st + 1) (take 100 (body_text sbr))) \<in> set (trace st'))) \<and>
   (fetch ph (batch_num st + 1) (cursor st) (limit ph) = Some resp \<and> status_code resp = 200 \<and>
    json_items resp = None \<longrightarrow>
      offset_iteration ph st = Inl JSONDecodeError) \<and>
   (fetch ph (batch_num st + 1) (cursor st) (limit ph) = Some resp \<and> status_code resp = 200 \<and>
    json_items resp = Some items \<and> items \<noteq> [] \<and> emap (transform ph) items = Inl e \<longrightarrow>
      offset_iteration ph st = Inl e) \<and>
   (fetch ph (batch_num st + 1) (cursor st) (limit ph) = Some resp \<and> status_code resp = 200 \<and>
    json_items resp = Some items \<and> items \<noteq> [] \<and> emap (transform ph) items = Inr records \<and>
    post ph (batch_num st + 1) records = Inl e \<longrightarrow>
      offset_iteration ph st = Inl e) \<and>
   (offset_iteration (transactions_v2 w psize) (start 0) = Inl e \<longrightarrow>
      sync_transactions_streaming w psize (Suc fuel) = Some (Inl e))"
proof (intro conjI impI)
  assume "fetch ph (batch_num st + 1) (cursor st) (limit ph) = None \<or>
     (\<exists>r. fetch ph (batch_num st + 1) (cursor st) (limit ph) = Some r \<and> status_code r \<noteq> 200)"
  then show "offset_iteration ph st =
        Inr (Break, st\<lparr>batch_num := batch_num st + 1,
               trace := trace st @
                 [Request (cursor st) (limit ph) (fetch ph (batch_num st + 1) (cursor st) (limit ph)),
                  Print (Fetch_error (cursor st)
                    (error_details (fetch ph (batch_num st + 1) (cursor st) (limit ph))))]\<rparr>)"
    by (auto simp: offset_iteration_def Let_def)
next
  assume a: "fetch ph (batch_num st + 1) (cursor st) (limit ph) = Some resp \<and> status_code resp = 200 \<and>
    json_items resp = Some items \<and> items \<noteq> [] \<and> emap (transform ph) items = Inr records \<and>
    post ph (batch_num st + 1) records = Inr sbr \<and> status_code sbr \<notin> {200, 201, 204}"
  then have w: "write_batch ph (batch_num st + 1) (total st) records =
      Inr (total st, [Upsert (table ph) records,
             Print (Batch_error (batch_num st + 1) (take 100 (body_text sbr)))])"
    by (intro write_batch_rejected) simp_all
  show "\<exists>fl st'. offset_iteration ph st = Inr (fl, st') \<and> total st' = total st \<and>
         Print (Batch_error (batch_num st + 1) (take 100 (body_text sbr))) \<in> set (trace st')"
    using a w by (simp add: offset_iteration_def Let_def)
next
  assume "fetch ph (batch_num st + 1) (cursor st) (limit ph) = Some resp \<and> status_code resp = 200 \<and>
    json_items resp = None"
  then show "offset_iteration ph st = Inl JSONDecodeError"
    by (simp add: offset_iteration_def Let_def)
next
  assume "fetch ph (batch_num st + 1) (cursor st) (limit ph) = Some resp \<and> status_code resp = 200 \<and>
    json_items resp = Some items \<and> items \<noteq> [] \<and> emap (transform ph) items = Inl e"
  then show "offset_iteration ph st = Inl e"
    by (simp add: offset_iteration_def Let_def)
next
  assume "fetch ph (batch_num st + 1) (cursor st) (limit ph) = Some resp \<and> status_code resp = 200 \<and>
    json_items resp = Some items \<and> items \<noteq> [] \<and> emap (transform ph) items = Inr records \<and>
    post ph (batch_num st + 1) records = Inl e"
  then show "offset_iteration ph st = Inl e"
    by (simp add: offset_iteration_def Let_def write_batch_def)
next
  assume "offset_iteration (transactions_v2 w psize) (start 0) = Inl e"
  then show "sync_transactions_streaming w psize (Suc fuel) = Some (Inl e)"
    by (rule streaming_first_raises)
qed

text \<open>
  The theorem at a source that answers 503, at a destination that answers 500, at a body
  that is not JSON, at a row without \<^verbatim>\<open>transaction_id\<close>, and at a destination that cannot
  be reached.
\<close>

theorem phase_failure_handling_witness:
  "offset_iteration (transactions_v2 (v2_world unavailable unavailable accepting) 2) (start 0) =
     Inr (Break, \<lparr>cursor = 0, batch_num = 1, total = 0,
       trace = [Request 0 2 (Some \<lparr>status_code = 503, body_text = ''busy'', json_items = None\<rparr>),
                Print (Fetch_error 0 None)]\<rparr>) \<and>
   (\<exists>fl st'. offset_iteration (transactions_v2 (v2_world (offset_source [txn 1]) (offset_source [])
                  rejecting) 2) (start 0) = Inr (fl, st') \<and>
       total st' = 0 \<and> Print (Batch_error 1 ''no'') \<in> set (trace st')) \<and>
   offset_iteration (transactions_v2 (v2_world malformed malformed accepting) 2) (start 0) =
     Inl JSONDecodeError \<and>
   offset_iteration (transactions_v2 (v2_world (offset_source [(txn 1)(''transaction_id'' := None)])
       (offset_source []) accepting) 2) (start 0) = Inl (KeyError ''transaction_id'') \<and>
   offset_iteration (transactions_v2 (v2_world (offset_source [txn 1]) (offset_source [])
       refusing) 2) (start 0) = Inl RequestException \<and>
   sync_transactions_streaming (v2_world malformed malformed accepting) 2 (Suc 4) =
     Some (Inl JSONDecodeError)"
proof -
  let ?r503 = "\<lparr>status_code = 503, body_text = ''busy'', json_items = None\<rparr>"
  let ?rbad = "\<lparr>status_code = 200, body_text = ''<html>'', json_items = None\<rparr>"
  let ?r1 = "\<lparr>status_code = 200, body_text = [], json_items = Some [txn 1]\<rparr>"
  let ?rrow = "\<lparr>status_code = 200, body_text = [],
                json_items = Some [(txn 1)(''transaction_id'' := None)]\<rparr>"
  let ?sbr = "\<lparr>status_code = 500, body_text = ''no'', json_items = None\<rparr>"
  let ?p1 = "transactions_v2 (v2_world unavailable unavailable accepting) 2"
  let ?p2 = "transactions_v2 (v2_world (offset_source [txn 1]) (offset_source []) rejecting) 2"
  let ?p3 = "transactions_v2 (v2_world malformed malformed accepting) 2"
  let ?p4 = "transactions_v2 (v2_world (offset_source [(txn 1)(''transaction_id'' := None)])
       (offset_source []) accepting) 2"
  let ?p5 = "transactions_v2 (v2_world (offset_source [txn 1]) (offset_source []) refusing) 2"
  have h1: "fetch ?p1 (batch_num (start 0) + 1) (cursor (start 0)) (limit ?p1) = None \<or>
     (\<exists>r. fetch ?p1 (batch_num (start 0) + 1) (cursor (start 0)) (limit ?p1) = Some r \<and>
          status_code r \<noteq> 200)"
    by (simp add: transactions_v2_def unavailable_def)
  have 1: "offset_iteration ?p1 (start 0) =
     Inr (Break, \<lparr>cursor = 0, batch_num = 1, total = 0,
       trace = [Request 0 2 (Some ?r503), Print (Fetch_error 0 None)]\<rparr>)"
    using phase_failure_handling[where ph = ?p1 and st = "start 0", THEN conjunct1, rule_format, OF h1]
    by (simp add: transactions_v2_def unavailable_def start_def error_details_def response_truthy_def)
  have h2: "fetch ?p2 (batch_num (start 0) + 1) (cursor (start 0)) (limit ?p2) = Some ?r1 \<and>
      status_code ?r1 = 200 \<and> json_items ?r1 = Some [txn 1] \<and> [txn 1] \<noteq> [] \<and>
      emap (transform ?p2) [txn 1] = Inr [txn_record 1] \<and>
      post ?p2 (batch_num (start 0) + 1) [txn_record 1] = Inr ?sbr \<and>
      status_code ?sbr \<notin> {200, 201, 204}"
    by (simp add: transactions_v2_def offset_source_def start_def post_plain rejecting_def)
  have 2: "\<exists>fl st'. offset_iteration ?p2 (start 0) = Inr (fl, st') \<and>
       total st' = 0 \<and> Print (Batch_error 1 ''no'') \<in> set (trace st')"
    using phase_failure_handling[where ph = ?p2 and st = "start 0" and resp = ?r1
        and items = "[txn 1]" and records = "[txn_record 1]" and sbr = ?sbr,
        THEN conjunct2, THEN conjunct1, rule_format, OF h2]
    by (simp add: start_def)
  have h3: "fetch ?p3 (batch_num (start 0) + 1) (cursor (start 0)) (limit ?p3) = Some ?rbad \<and>
      status_code ?rbad = 200 \<and> json_items ?rbad = None"
    by (simp add: transactions_v2_def malformed_def)
  have 3: "offset_iteration ?p3 (start 0) = Inl JSONDecodeError"
    using phase_failure_handling[where ph = ?p3 and st = "start 0" and resp = ?rbad,
        THEN conjunct2, THEN conjunct2, THEN conjunct1, rule_format, OF h3] .
  have h4: "fetch ?p4 (batch_num (start 0) + 1) (cursor (start 0)) (limit ?p4) = Some ?rrow \<and>
      status_code ?rrow = 200 \<and> json_items ?rrow = Some [(txn 1)(''transaction_id'' := None)] \<and>
      [(txn 1)(''transaction_id'' := None)] \<noteq> [] \<and>
      emap (transform ?p4) [(txn 1)(''transaction_id'' := None)] = Inl (KeyError ''transaction_id'')"
    by (simp add: transactions_v2_def offset_source_def start_def bad_row_raises)
  have 4: "offset_iteration ?p4 (start 0) = Inl (KeyError ''transaction_id'')"
    using phase_failure_handling[where ph = ?p4 and st = "start 0" and resp = ?rrow
        and items = "[(txn 1)(''transaction_id'' := None)]" and e = "KeyError ''transaction_id''",
        THEN conjunct2, THEN conjunct2, THEN conjunct2, THEN conjunct1, rule_format, OF h4] .
  have h5: "fetch ?p5 (batch_num (start 0) + 1) (cursor (start 0)) (limit ?p5) = Some ?r1 \<and>
      status_code ?r1 = 200 \<and> json_items ?r1 = Some [txn 1] \<and> [txn 1] \<noteq> [] \<and>
      emap (transform ?p5) [txn 1] = Inr [txn_record 1] \<and>
      post ?p5 (batch_num (start 0) + 1) [txn_record 1] = Inl RequestException"
    by (simp add: transactions_v2_def offset_source_def start_def post_plain refusing_def)
  have 5: "offset_iteration ?p5 (start 0) = Inl RequestException"
    using phase_failure_handling[where ph = ?p5 and st = "start 0" and resp = ?r1
        and items = "[txn 1]" and records = "[txn_record 1]" and e = RequestException,
        THEN conjunct2, THEN conjunct2, THEN conjunct2, THEN conjunct2, THEN conjunct1,
        rule_format, OF h5] .
  have 6: "sync_transactions_streaming (v2_world malformed malformed accepting) 2 (Suc 4) =
     Some (Inl JSONDecodeError)"
    using phase_failure_handling[where w = "v2_world malformed malformed accepting" and psize = 2
        and e = JSONDecodeError and fuel = 4,
        THEN conjunct2, THEN conjunct2, THEN conjunct2, THEN conjunct2, THEN conjunct2,
        rule_format, OF 3] .
  show ?thesis using 1 2 3 4 5 6 by blast
qed

text \<open>
  Claim C8 as stated fails where it says that no exception escapes a phase: a response
  with status 200 whose body is not JSON, a row without \<^verbatim>\<open>transaction_id\<close>, and a
  destination that cannot be reached each end the whole function with the exception.
\<close>

theorem exceptions_escape_the_phase:
  "sync_transactions_streaming (v2_world malformed malformed accepting) 1000 3 =
     Some (Inl JSONDecodeError) \<and>
   sync_transactions_streaming
     (v2_world (offset_source [(txn 1)(''transaction_id'' := None)]) (offset_source []) accepting)
     1000 3 = Some (Inl (KeyError ''transaction_id'')) \<and>
   sync_transactions_streaming
     (v2_world (offset_source [txn 1]) (offset_source []) refusing) 1000 3 =
     Some (Inl RequestException)"
proof -
  have 1: "sync_transactions_streaming (v2_world malformed malformed accepting) 1000 3 =
     Some (Inl JSONDecodeError)"
    by (simp add: sync_transactions_streaming_def numeral_3_eq_3 offset_iteration_def
        transactions_v2_def malformed_def start_def Let_def)
  have 2: "sync_transactions_streaming
     (v2_world (offset_source [(txn 1)(''transaction_id'' := None)]) (offset_source []) accepting)
     1000 3 = Some (Inl (KeyError ''transaction_id''))"
    by (simp add: sync_transactions_streaming_def numeral_3_eq_3 offset_iteration_def
        transactions_v2_def offset_source_def start_def Let_def
        transform_transaction_def py_index_def txn_def)
  have 3: "sync_transactions_streaming
     (v2_world (offset_source [txn 1]) (offset_source []) refusing) 1000 3 =
     Some (Inl RequestException)"
    by (simp add: sync_transactions_streaming_def numeral_3_eq_3 offset_iteration_def
        transactions_v2_def offset_source_def start_def Let_def write_batch_def post_plain
        refusing_def)
  show ?thesis using 1 2 3 by blast
qed

end
